theory Spec2Isabelle
  imports Complex_Main "HOL-Library.Sublist" "HOL-Library.Multiset"
begin

section \<open>JavaScript values used by the design-system generator\<close>

text \<open>
  Strings are lists of \<^typ>\<open>char\<close>; a character stands for the UTF-16 code unit of the
  same number, so the model covers strings over U+0000 .. U+00FF. Numbers are real numbers
  extended by the two infinities and NaN: rounding and overflow of the 64-bit floating-point
  format and the sign of zero are not modelled, the special values produced by division by
  zero and by arithmetic on non-numbers are. A score of the model is the exact value of the
  expression that the program evaluates in floating point; what depends on the last bits of
  the computed number, such as the order of two scores that differ by rounding only, is
  outside the model.
\<close>

datatype jsnum = Fin real | PInf | NInf | NaN

definition signed_inf :: "bool \<Rightarrow> jsnum" where
  "signed_inf pos = (if pos then PInf else NInf)"

fun jneg :: "jsnum \<Rightarrow> jsnum" where
  "jneg (Fin x) = Fin (- x)"
| "jneg PInf = NInf"
| "jneg NInf = PInf"
| "jneg NaN = NaN"

fun jadd :: "jsnum \<Rightarrow> jsnum \<Rightarrow> jsnum" where
  "jadd (Fin x) (Fin y) = Fin (x + y)"
| "jadd NaN y = NaN"
| "jadd x NaN = NaN"
| "jadd PInf NInf = NaN"
| "jadd NInf PInf = NaN"
| "jadd PInf y = PInf"
| "jadd x PInf = PInf"
| "jadd NInf y = NInf"
| "jadd x NInf = NInf"

definition jsub :: "jsnum \<Rightarrow> jsnum \<Rightarrow> jsnum" where
  "jsub x y = jadd x (jneg y)"

fun jmul :: "jsnum \<Rightarrow> jsnum \<Rightarrow> jsnum" where
  "jmul (Fin x) (Fin y) = Fin (x * y)"
| "jmul NaN y = NaN"
| "jmul x NaN = NaN"
| "jmul (Fin x) PInf = (if x = 0 then NaN else signed_inf (0 < x))"
| "jmul (Fin x) NInf = (if x = 0 then NaN else signed_inf (x < 0))"
| "jmul PInf (Fin y) = (if y = 0 then NaN else signed_inf (0 < y))"
| "jmul NInf (Fin y) = (if y = 0 then NaN else signed_inf (y < 0))"
| "jmul PInf PInf = PInf"
| "jmul NInf NInf = PInf"
| "jmul PInf NInf = NInf"
| "jmul NInf PInf = NInf"

fun jdiv :: "jsnum \<Rightarrow> jsnum \<Rightarrow> jsnum" where
  "jdiv (Fin x) (Fin y) =
     (if y = 0 then (if x = 0 then NaN else signed_inf (0 < x)) else Fin (x / y))"
| "jdiv NaN y = NaN"
| "jdiv x NaN = NaN"
| "jdiv (Fin x) PInf = Fin 0"
| "jdiv (Fin x) NInf = Fin 0"
| "jdiv PInf (Fin y) = signed_inf (0 \<le> y)"
| "jdiv NInf (Fin y) = signed_inf (y < 0)"
| "jdiv PInf PInf = NaN"
| "jdiv PInf NInf = NaN"
| "jdiv NInf PInf = NaN"
| "jdiv NInf NInf = NaN"

text \<open>\<open>x > 0\<close> and \<open>x > y\<close> on numbers: false whenever NaN is involved.\<close>

fun js_positive :: "jsnum \<Rightarrow> bool" where
  "js_positive (Fin x) = (0 < x)"
| "js_positive PInf = True"
| "js_positive NInf = False"
| "js_positive NaN = False"

definition js_greater :: "jsnum \<Rightarrow> jsnum \<Rightarrow> bool" where
  "js_greater x y = js_positive (jsub x y)"

subsection \<open>Plain objects used as dictionaries\<close>

text \<open>
  The dictionaries of the program are plain objects (\<open>{}\<close>), so a lookup \<open>obj[key]\<close> that
  finds no own property continues in \<open>Object.prototype\<close>. The names below are the
  properties every plain object inherits; all of them hold functions, except \<open>__proto__\<close>,
  an accessor that yields the prototype object. An assignment \<open>obj[key] = v\<close> creates an own
  property, except for the key \<open>__proto__\<close>, whose setter ignores a value that is a number or
  a string.
\<close>

definition proto_keys :: "string list" where
  "proto_keys = [''constructor'', ''__defineGetter__'', ''__defineSetter__'',
     ''hasOwnProperty'', ''__lookupGetter__'', ''__lookupSetter__'', ''isPrototypeOf'',
     ''propertyIsEnumerable'', ''toString'', ''valueOf'', ''__proto__'', ''toLocaleString'']"

datatype 'a lookup = Own 'a | Inherited | Absent

definition obj_get :: "(string \<rightharpoonup> 'a) \<Rightarrow> string \<Rightarrow> 'a lookup" where
  "obj_get m key =
     (case m key of Some v \<Rightarrow> Own v
      | None \<Rightarrow> if key \<in> set proto_keys then Inherited else Absent)"

definition obj_set :: "(string \<rightharpoonup> 'a) \<Rightarrow> string \<Rightarrow> 'a \<Rightarrow> (string \<rightharpoonup> 'a)" where
  "obj_set m key v = (if key = ''__proto__'' then m else m(key \<mapsto> v))"

text \<open>
  A counter cell of \<open>docFreqs\<close> or \<open>termFreqs\<close>. \<open>(d[word] || 0) + 1\<close> adds one to a number,
  starts at one for a missing key, and concatenates \<open>"1"\<close> to the text of an inherited function
  or of a string written earlier: \<open>Junk\<close> is such a string.
\<close>

datatype count = Cnt nat | Junk

definition bump :: "count lookup \<Rightarrow> count" where
  "bump p = (case p of Own (Cnt n) \<Rightarrow> Cnt (n + 1) | Own Junk \<Rightarrow> Junk
             | Inherited \<Rightarrow> Junk | Absent \<Rightarrow> Cnt 1)"

subsection \<open>Strings\<close>

definition is_upper :: "char \<Rightarrow> bool" where
  "is_upper c = (let n = (of_char c :: nat)
                 in (65 \<le> n \<and> n \<le> 90) \<or> (192 \<le> n \<and> n \<le> 222 \<and> n \<noteq> 215))"

definition toLowerCase_char :: "char \<Rightarrow> char" where
  "toLowerCase_char c =
     (if is_upper c
      then (case c of Char b0 b1 b2 b3 b4 b5 b6 b7 \<Rightarrow> Char b0 b1 b2 b3 b4 True b6 b7)
      else c)"

definition toLowerCase :: "string \<Rightarrow> string" where
  "toLowerCase s = map toLowerCase_char s"

text \<open>\<open>\w\<close> is \<open>[A-Za-z0-9_]\<close>; \<open>\s\<close> below U+0100 is tab, line feed, vertical tab, form
  feed, carriage return, space and the no-break space.\<close>

definition is_word_char :: "char \<Rightarrow> bool" where
  "is_word_char c =
     (c \<in> set ''abcdefghijklmnopqrstuvwxyzABCDEFGHIJKLMNOPQRSTUVWXYZ0123456789_'')"

definition is_space :: "char \<Rightarrow> bool" where
  "is_space c =
     (c \<in> set [CHR 0x09, CHR 0x0A, CHR 0x0B, CHR 0x0C, CHR 0x0D, CHR 0x20, CHR 0xA0])"

text \<open>\<open>s.split(/\s+/)\<close>: the fields between maximal runs of white space; a run at either
  end leaves an empty field there, and the empty string has the one field \<open>""\<close>.\<close>

function split_fields :: "string \<Rightarrow> string \<Rightarrow> string list" where
  "split_fields cur [] = [cur]"
| "split_fields cur (c # cs) =
     (if is_space c then cur # split_fields [] (dropWhile is_space cs)
      else split_fields (cur @ [c]) cs)"
  by pat_completeness auto
termination
  by (relation "measure (\<lambda>(cur, s). length s)")
     (auto simp: length_dropWhile_le less_Suc_eq_le)

definition split_ws :: "string \<Rightarrow> string list" where
  "split_ws s = split_fields [] s"

text \<open>\<open>s.includes(sub)\<close>.\<close>

fun str_includes :: "string \<Rightarrow> string \<Rightarrow> bool" where
  "str_includes [] sub = (sub = [])"
| "str_includes (c # cs) sub = (prefix sub (c # cs) \<or> str_includes cs sub)"

definition trim :: "string \<Rightarrow> string" where
  "trim s = rev (dropWhile is_space (rev (dropWhile is_space s)))"

fun join :: "string \<Rightarrow> string list \<Rightarrow> string" where
  "join sep [] = []"
| "join sep [x] = x"
| "join sep (x # y # ys) = x @ sep @ join sep (y # ys)"

section \<open>The BM25 index\<close>

record BM25 =
  k1 :: real
  b :: real
  corpus :: "string list list"
  docLengths :: "nat list"
  avgdl :: real
  idf :: "string \<rightharpoonup> jsnum"
  docFreqs :: "string \<rightharpoonup> count"
  N :: nat

definition BM25_new :: "real \<Rightarrow> real \<Rightarrow> BM25" where
  "BM25_new k1' b' = \<lparr>k1 = k1', b = b', corpus = [], docLengths = [], avgdl = 0,
     idf = Map.empty, docFreqs = Map.empty, N = 0\<rparr>"

text \<open>\<open>new BM25()\<close>: the default parameters.\<close>

definition BM25_default :: BM25 where
  "BM25_default = BM25_new (3 / 2) (3 / 4)"

definition tokenize :: "string \<Rightarrow> string list" where
  "tokenize text =
     filter (\<lambda>w. 2 < length w)
       (split_ws (map (\<lambda>c. if is_word_char c \<or> is_space c then c else CHR '' '')
                      (toLowerCase text)))"

text \<open>The inner loop of \<open>fit\<close> over the words of one document, with its \<open>seen\<close> set.\<close>

fun fit_doc :: "string list \<Rightarrow> string set \<Rightarrow> (string \<rightharpoonup> count) \<Rightarrow> (string \<rightharpoonup> count)" where
  "fit_doc [] seen df = df"
| "fit_doc (word # ws) seen df =
     (if word \<in> seen then fit_doc ws seen df
      else fit_doc ws (insert word seen) (obj_set df word (bump (obj_get df word))))"

fun fit_docs :: "string list list \<Rightarrow> (string \<rightharpoonup> count) \<Rightarrow> (string \<rightharpoonup> count)" where
  "fit_docs [] df = df"
| "fit_docs (doc # ds) df = fit_docs ds (fit_doc doc {} df)"

text \<open>\<open>Math.log((N - freq + 0.5) / (freq + 0.5) + 1)\<close> for a numeric \<open>freq\<close>. The argument of
  the logarithm is \<open>(N + 1) / (freq + 0.5)\<close>, positive for every count.\<close>

definition idf_value :: "nat \<Rightarrow> nat \<Rightarrow> real" where
  "idf_value n freq = ln ((real n - real freq + 1 / 2) / (real freq + 1 / 2) + 1)"

text \<open>The loop over \<open>Object.entries(this.docFreqs)\<close> writes one entry of \<open>idf\<close> for each own
  entry of \<open>docFreqs\<close>; a \<open>Junk\<close> frequency makes the arithmetic yield NaN.\<close>

definition idf_table :: "nat \<Rightarrow> (string \<rightharpoonup> count) \<Rightarrow> (string \<rightharpoonup> jsnum)" where
  "idf_table n df =
     (\<lambda>word. if word = ''__proto__'' then None
             else (case df word of None \<Rightarrow> None
                   | Some (Cnt freq) \<Rightarrow> Some (Fin (idf_value n freq))
                   | Some Junk \<Rightarrow> Some NaN))"

definition fit :: "string list \<Rightarrow> BM25 \<Rightarrow> BM25" where
  "fit documents st =
     (let c = map tokenize documents;
          st1 = st\<lparr>corpus := c, N := length c\<rparr>
      in if length c = 0 then st1
         else (let dl = map length c;
                   df = fit_docs c Map.empty
               in st1\<lparr>docLengths := dl,
                      avgdl := real (fold (\<lambda>x a. a + x) dl 0) / real (length c),
                      docFreqs := df,
                      idf := idf_table (length c) df\<rparr>))"

text \<open>\<open>for (const word of doc) termFreqs[word] = (termFreqs[word] || 0) + 1\<close>.\<close>

definition termFreqs_of :: "string list \<Rightarrow> (string \<rightharpoonup> count)" where
  "termFreqs_of doc = fold (\<lambda>word m. obj_set m word (bump (obj_get m word))) doc Map.empty"

text \<open>\<open>termFreqs[token] || 0\<close> as the arithmetic sees it: an inherited function and a \<open>Junk\<close>
  string are truthy and turn every product into NaN.\<close>

definition tf_lookup :: "(string \<rightharpoonup> count) \<Rightarrow> string \<Rightarrow> jsnum" where
  "tf_lookup termFreqs token =
     (case obj_get termFreqs token of Own (Cnt n) \<Rightarrow> Fin (real n) | Own Junk \<Rightarrow> NaN
      | Inherited \<Rightarrow> NaN | Absent \<Rightarrow> Fin 0)"

text \<open>\<open>this.idf[token]\<close>: \<open>None\<close> when it is \<open>undefined\<close>; an inherited value is a function or
  the prototype object, NaN in a product.\<close>

definition idf_lookup :: "(string \<rightharpoonup> jsnum) \<Rightarrow> string \<Rightarrow> jsnum option" where
  "idf_lookup m token =
     (case obj_get m token of Own v \<Rightarrow> Some v | Inherited \<Rightarrow> Some NaN | Absent \<Rightarrow> None)"

text \<open>One round of the loop over the query tokens (lines 59 to 67), in exact arithmetic.\<close>

definition score_token :: "BM25 \<Rightarrow> (string \<rightharpoonup> count) \<Rightarrow> jsnum \<Rightarrow> string \<Rightarrow> jsnum \<Rightarrow> jsnum" where
  "score_token st termFreqs docLen token sc =
     (case idf_lookup (idf st) token of
        None \<Rightarrow> sc
      | Some idfVal \<Rightarrow>
          (let tf = tf_lookup termFreqs token;
               num = jmul tf (Fin (k1 st + 1));
               den = jadd tf (jmul (Fin (k1 st))
                       (jadd (Fin (1 - b st))
                             (jdiv (jmul (Fin (b st)) docLen) (Fin (avgdl st)))))
           in jadd sc (jdiv (jmul idfVal num) den)))"

definition score_tokens :: "BM25 \<Rightarrow> (string \<rightharpoonup> count) \<Rightarrow> jsnum \<Rightarrow> string list \<Rightarrow> jsnum" where
  "score_tokens st termFreqs docLen queryTokens =
     fold (score_token st termFreqs docLen) queryTokens (Fin 0)"

text \<open>\<open>this.docLengths[idx]\<close> is \<open>undefined\<close> beyond the end of the array, NaN in a product.\<close>

definition docLen_at :: "BM25 \<Rightarrow> nat \<Rightarrow> jsnum" where
  "docLen_at st idx =
     (if idx < length (docLengths st) then Fin (real (docLengths st ! idx)) else NaN)"

definition score_doc :: "BM25 \<Rightarrow> string list \<Rightarrow> nat \<Rightarrow> jsnum" where
  "score_doc st queryTokens idx =
     score_tokens st (termFreqs_of (corpus st ! idx)) (docLen_at st idx) queryTokens"

text \<open>
  \<open>Array.prototype.sort\<close> with a comparison function: \<open>x\<close> is placed after \<open>y\<close> when
  \<open>cmp(x, y) > 0\<close>, and a NaN result counts as zero. The sort is stable; it is written here as
  the insertion sort that produces the stable order. For a comparison function that is not
  consistent the language leaves the order to the implementation.
\<close>

fun sort_insert :: "('a \<Rightarrow> 'a \<Rightarrow> jsnum) \<Rightarrow> 'a \<Rightarrow> 'a list \<Rightarrow> 'a list" where
  "sort_insert cmp x [] = [x]"
| "sort_insert cmp x (y # ys) =
     (if js_positive (cmp x y) then y # sort_insert cmp x ys else x # y # ys)"

definition array_sort :: "('a \<Rightarrow> 'a \<Rightarrow> jsnum) \<Rightarrow> 'a list \<Rightarrow> 'a list" where
  "array_sort cmp xs = foldr (sort_insert cmp) xs []"

definition score :: "string \<Rightarrow> BM25 \<Rightarrow> (nat \<times> jsnum) list" where
  "score query st =
     (let queryTokens = tokenize query;
          scores = map (\<lambda>idx. (idx, score_doc st queryTokens idx)) [0..<length (corpus st)]
      in array_sort (\<lambda>x y. jsub (snd y) (snd x)) scores)"

section \<open>Collection search\<close>

record config =
  file_name :: string
  searchCols :: "string list"
  outputCols :: "string list"

definition DESIGN_CSV_CONFIG :: "string \<rightharpoonup> config" where
  "DESIGN_CSV_CONFIG =
     [''style'' \<mapsto> \<lparr>file_name = ''styles.json'',
        searchCols = [''Style Category'', ''Keywords'', ''Best For'', ''Type''],
        outputCols = [''Style Category'', ''Type'', ''Keywords'', ''Primary Colors'',
          ''Effects & Animation'', ''Best For'', ''Performance'', ''Accessibility'']\<rparr>,
      ''color'' \<mapsto> \<lparr>file_name = ''colors.json'',
        searchCols = [''Product Type'', ''Keywords'', ''Notes''],
        outputCols = [''Product Type'', ''Keywords'', ''Primary (Hex)'', ''Secondary (Hex)'',
          ''CTA (Hex)'', ''Background (Hex)'', ''Text (Hex)'', ''Notes'']\<rparr>,
      ''landing'' \<mapsto> \<lparr>file_name = ''landing.json'',
        searchCols = [''Pattern Name'', ''Keywords'', ''Conversion Optimization'',
          ''Section Order''],
        outputCols = [''Pattern Name'', ''Keywords'', ''Section Order'',
          ''Primary CTA Placement'', ''Color Strategy'', ''Conversion Optimization'']\<rparr>,
      ''product'' \<mapsto> \<lparr>file_name = ''products.json'',
        searchCols = [''Product Type'', ''Keywords'', ''Primary Style Recommendation'',
          ''Key Considerations''],
        outputCols = [''Product Type'', ''Keywords'', ''Primary Style Recommendation'',
          ''Color Palette Focus'']\<rparr>,
      ''typography'' \<mapsto> \<lparr>file_name = ''typography.json'',
        searchCols = [''Font Pairing Name'', ''Category'', ''Mood/Style Keywords'',
          ''Best For'', ''Heading Font'', ''Body Font''],
        outputCols = [''Font Pairing Name'', ''Heading Font'', ''Body Font'',
          ''Mood/Style Keywords'', ''Best For'', ''Google Fonts URL'', ''CSS Import'']\<rparr>]"

text \<open>
  A data file is an array of records whose values are strings, as the converter from the
  delimited-text sources writes them. \<open>files\<close> gives what reading and parsing a file
  yields: the records, or the error that \<open>readFileSync\<close> or \<open>JSON.parse\<close> throws.
  \<open>designDataCache\<close> is passed in and returned. None of the field names and file names that
  the program looks up is a property of \<open>Object.prototype\<close>, so these lookups are plain.
\<close>

datatype error = TypeError | LoadError

type_synonym row = "string \<rightharpoonup> string"

type_synonym result = "(string \<times> string) list"

type_synonym files = "string \<Rightarrow> error + row list"

type_synonym cache = "string \<rightharpoonup> row list"

definition loadDesignData :: "files \<Rightarrow> cache \<Rightarrow> string \<Rightarrow> error + (row list \<times> cache)" where
  "loadDesignData fs c filename =
     (case c filename of
        Some data \<Rightarrow> Inr (data, c)
      | None \<Rightarrow> (case fs filename of
                   Inl e \<Rightarrow> Inl e
                 | Inr data \<Rightarrow> Inr (data, c(filename \<mapsto> data))))"

text \<open>\<open>row[col] || ''\<close>.\<close>

definition field :: "row \<Rightarrow> string \<Rightarrow> string" where
  "field r col = (case r col of Some v \<Rightarrow> v | None \<Rightarrow> [])"

text \<open>\<open>s || d\<close> on strings.\<close>

definition or_else :: "string \<Rightarrow> string \<Rightarrow> string" where
  "or_else s d = (if s = [] then d else s)"

text \<open>\<open>xs.slice(0, end)\<close> for an integer \<open>end\<close>: a negative \<open>end\<close> counts from the end
  of the array.\<close>

definition array_slice0 :: "int \<Rightarrow> 'a list \<Rightarrow> 'a list" where
  "array_slice0 end' xs =
     (if end' < 0 then take (nat (int (length xs) + end')) xs else take (nat end') xs)"

text \<open>The result record: the non-empty output columns of a row, in the order of
  \<open>outputCols\<close>.\<close>

definition project :: "string list \<Rightarrow> row \<Rightarrow> result" where
  "project cols r =
     concat (map (\<lambda>col. case r col of None \<Rightarrow> []
                         | Some v \<Rightarrow> if v = [] then [] else [(col, v)]) cols)"

text \<open>\<open>.map(([idx]) => ...)\<close>: reading a field of \<open>data[idx]\<close> throws when \<open>idx\<close> is out of
  range.\<close>

fun project_all :: "string list \<Rightarrow> row list \<Rightarrow> (nat \<times> jsnum) list \<Rightarrow> error + result list" where
  "project_all cols data [] = Inr []"
| "project_all cols data ((idx, s) # rest) =
     (if idx < length data
      then (case project_all cols data rest of
              Inl e \<Rightarrow> Inl e
            | Inr rs \<Rightarrow> Inr (project cols (data ! idx) # rs))
      else Inl TypeError)"

definition documents_of :: "config \<Rightarrow> row list \<Rightarrow> string list" where
  "documents_of cfg data = map (\<lambda>r. join '' '' (map (field r) (searchCols cfg))) data"

text \<open>The ranked pairs that survive \<open>.slice(0, maxResults).filter(([, s]) => s > 0)\<close>.\<close>

definition search_hits :: "config \<Rightarrow> row list \<Rightarrow> string \<Rightarrow> int \<Rightarrow> (nat \<times> jsnum) list" where
  "search_hits cfg data query maxResults =
     (let bm25 = fit (documents_of cfg data) BM25_default;
          ranked = score query bm25
      in filter (\<lambda>(idx, s). js_positive s) (array_slice0 maxResults ranked))"

text \<open>For a name that \<open>DESIGN_CSV_CONFIG\<close> inherits, \<open>config\<close> is a function or the prototype
  object, \<open>config.file\<close> is \<open>undefined\<close>, and \<open>path.join\<close> throws a \<open>TypeError\<close>.\<close>

definition searchDesignCSV ::
  "files \<Rightarrow> cache \<Rightarrow> string \<Rightarrow> string \<Rightarrow> int \<Rightarrow> error + (result list \<times> cache)" where
  "searchDesignCSV fs c domain query maxResults =
     (case obj_get DESIGN_CSV_CONFIG domain of
        Absent \<Rightarrow> Inr ([], c)
      | Inherited \<Rightarrow> Inl TypeError
      | Own cfg \<Rightarrow>
          (case loadDesignData fs c (file_name cfg) of
             Inl e \<Rightarrow> Inl e
           | Inr (data, c') \<Rightarrow>
               (case project_all (outputCols cfg) data (search_hits cfg data query maxResults) of
                  Inl e \<Rightarrow> Inl e
                | Inr rs \<Rightarrow> Inr (rs, c'))))"

section \<open>Reasoning rules\<close>

definition findReasoningRule :: "string \<Rightarrow> row list \<Rightarrow> row option" where
  "findReasoningRule category reasoningData =
     (let catLower = toLowerCase category in
      case find (\<lambda>rule. toLowerCase (field rule ''UI_Category'') = catLower) reasoningData of
        Some rule \<Rightarrow> Some rule
      | None \<Rightarrow>
          (case find (\<lambda>rule. let uiCat = toLowerCase (field rule ''UI_Category'')
                              in str_includes uiCat catLower \<or> str_includes catLower uiCat)
                     reasoningData of
             Some rule \<Rightarrow> Some rule
           | None \<Rightarrow>
               find (\<lambda>rule.
                      let uiCat = toLowerCase (field rule ''UI_Category'');
                          keywords = split_ws (map (\<lambda>c. if c = CHR ''/'' \<or> c = CHR ''-''
                                                         then CHR '' '' else c) uiCat)
                      in list_ex (\<lambda>kw. kw \<noteq> [] \<and> str_includes catLower kw) keywords)
                    reasoningData))"

text \<open>\<open>s.split('+')\<close>.\<close>

fun split_on :: "char \<Rightarrow> string \<Rightarrow> string \<Rightarrow> string list" where
  "split_on sep cur [] = [cur]"
| "split_on sep cur (c # cs) =
     (if c = sep then cur # split_on sep [] cs else split_on sep (cur @ [c]) cs)"

datatype json = JObject "(string \<times> json) list" | JArray "json list" | JString string
  | JNumber real | JBool bool | JNull

record reasoning =
  pattern :: string
  stylePriority :: "string list"
  colorMood :: string
  typographyMood :: string
  keyEffects :: string
  antiPatterns :: string
  decisionRules :: "json option"
  severity :: string

text \<open>
  \<open>JSON.parse\<close> is a parameter: \<open>parse s\<close> is the value it returns, or \<open>None\<close> when it
  throws. The default record has no \<open>decisionRules\<close> field.
\<close>

definition applyReasoning :: "(string \<Rightarrow> json option) \<Rightarrow> string \<Rightarrow> row list \<Rightarrow> reasoning" where
  "applyReasoning parse category reasoningData =
     (case findReasoningRule category reasoningData of
        None \<Rightarrow>
          \<lparr>pattern = ''Hero + Features + CTA'',
           stylePriority = [''Minimalism'', ''Flat Design''],
           colorMood = ''Professional'',
           typographyMood = ''Clean'',
           keyEffects = ''Subtle hover transitions'',
           antiPatterns = [],
           decisionRules = None,
           severity = ''MEDIUM''\<rparr>
      | Some rule \<Rightarrow>
          \<lparr>pattern = field rule ''Recommended_Pattern'',
           stylePriority =
             filter (\<lambda>s. s \<noteq> []) (map trim (split_on CHR ''+'' [] (field rule ''Style_Priority''))),
           colorMood = field rule ''Color_Mood'',
           typographyMood = field rule ''Typography_Mood'',
           keyEffects = field rule ''Key_Effects'',
           antiPatterns = field rule ''Anti_Patterns'',
           decisionRules =
             Some (case parse (or_else (field rule ''Decision_Rules'') ''{}'') of
                     Some v \<Rightarrow> v | None \<Rightarrow> JObject []),
           severity = or_else (field rule ''Severity'') ''MEDIUM''\<rparr>)"

section \<open>Selection among the style results\<close>

text \<open>\<open>JSON.stringify\<close> of a result record, whose keys and values are strings.\<close>

definition hex_digit :: "nat \<Rightarrow> char" where
  "hex_digit n = ''0123456789abcdef'' ! (n mod 16)"

definition json_escape_char :: "char \<Rightarrow> string" where
  "json_escape_char c =
     (if c = CHR 0x22 then [CHR 0x5C, CHR 0x22]
      else if c = CHR 0x5C then [CHR 0x5C, CHR 0x5C]
      else if c = CHR 0x08 then [CHR 0x5C, CHR ''b'']
      else if c = CHR 0x09 then [CHR 0x5C, CHR ''t'']
      else if c = CHR 0x0A then [CHR 0x5C, CHR ''n'']
      else if c = CHR 0x0C then [CHR 0x5C, CHR ''f'']
      else if c = CHR 0x0D then [CHR 0x5C, CHR ''r'']
      else if (of_char c :: nat) < 32
      then [CHR 0x5C, CHR ''u'', CHR ''0'', CHR ''0'',
            hex_digit ((of_char c :: nat) div 16), hex_digit (of_char c)]
      else [c])"

definition json_quote :: "string \<Rightarrow> string" where
  "json_quote s = [CHR 0x22] @ concat (map json_escape_char s) @ [CHR 0x22]"

definition json_stringify :: "result \<Rightarrow> string" where
  "json_stringify r =
     ''{'' @ join '','' (map (\<lambda>(k, v). json_quote k @ '':'' @ json_quote v) r) @ ''}''"

definition style_matches :: "string \<Rightarrow> result \<Rightarrow> bool" where
  "style_matches priority r =
     (let pLower = trim (toLowerCase priority);
          styleName = toLowerCase (field (map_of r) ''Style Category'')
      in str_includes pLower styleName \<or> str_includes styleName pLower)"

fun first_pass :: "result list \<Rightarrow> string list \<Rightarrow> result option" where
  "first_pass results [] = None"
| "first_pass results (priority # ps) =
     (case find (style_matches priority) results of
        Some r \<Rightarrow> Some r
      | None \<Rightarrow> first_pass results ps)"

definition keyword_score :: "string list \<Rightarrow> result \<Rightarrow> nat" where
  "keyword_score priorityKeywords r =
     (let resultStr = toLowerCase (json_stringify r)
      in fold (\<lambda>kw sc.
                let kwLower = trim (toLowerCase kw)
                in if str_includes (toLowerCase (field (map_of r) ''Style Category'')) kwLower
                   then sc + 10
                   else if str_includes (toLowerCase (field (map_of r) ''Keywords'')) kwLower
                   then sc + 3
                   else if str_includes resultStr kwLower then sc + 1
                   else sc)
              priorityKeywords 0)"

text \<open>The empty record \<open>{}\<close> is the empty list of fields. The sorted list has as many
  elements as \<open>results\<close>, so its first element exists whenever the second phase is reached.\<close>

definition selectBestMatch :: "result list \<Rightarrow> string list \<Rightarrow> result" where
  "selectBestMatch results priorityKeywords =
     (case results of
        [] \<Rightarrow> []
      | r0 # rest \<Rightarrow>
          if priorityKeywords = [] then r0
          else (case first_pass results priorityKeywords of
                  Some r \<Rightarrow> r
                | None \<Rightarrow>
                    (case array_sort (\<lambda>x y. Fin (real (fst y) - real (fst x)))
                            (map (\<lambda>r. (keyword_score priorityKeywords r, r)) results) of
                       [] \<Rightarrow> r0
                     | (sc, r) # others \<Rightarrow> if 0 < sc then r else r0)))"

section \<open>The design composer\<close>

record pattern_part =
  pattern_name :: string
  sections :: string
  ctaPlacement :: string
  colorStrategy :: string
  conversion :: string

record style_part =
  style_name :: string
  style_type :: string
  effects :: string
  style_keywords :: string
  style_bestFor :: string
  performance :: string
  accessibility :: string

record colors_part =
  primary :: string
  secondary :: string
  cta :: string
  background :: string
  text_color :: string
  color_notes :: string

record typography_part =
  heading :: string
  body :: string
  mood :: string
  typography_bestFor :: string
  googleFontsUrl :: string
  cssImport :: string

record design_system =
  projectName :: string
  category :: string
  ds_pattern :: pattern_part
  ds_style :: style_part
  colors :: colors_part
  typography :: typography_part
  ds_keyEffects :: string
  ds_antiPatterns :: string
  ds_severity :: string

text \<open>\<open>toUpperCase\<close> below U+0100. The sharp s becomes \<open>SS\<close>; the micro sign and the y with
  diaeresis have their capitals above U+00FF and are left as they are here.\<close>

definition is_lower :: "char \<Rightarrow> bool" where
  "is_lower c = (let n = (of_char c :: nat)
                 in (97 \<le> n \<and> n \<le> 122) \<or> (224 \<le> n \<and> n \<le> 254 \<and> n \<noteq> 247))"

definition toUpperCase_char :: "char \<Rightarrow> string" where
  "toUpperCase_char c =
     (if c = CHR 0xDF then ''SS''
      else if is_lower c
      then (case c of Char b0 b1 b2 b3 b4 b5 b6 b7 \<Rightarrow> [Char b0 b1 b2 b3 b4 False b6 b7])
      else [c])"

definition toUpperCase :: "string \<Rightarrow> string" where
  "toUpperCase s = concat (map toUpperCase_char s)"

text \<open>\<open>results[0] || {}\<close>.\<close>

definition first_or_empty :: "result list \<Rightarrow> result" where
  "first_or_empty rs = (case rs of [] \<Rightarrow> [] | r # rest \<Rightarrow> r)"

text \<open>The record assembled from the selected results (lines 229 to 270).\<close>

definition compose ::
  "string \<Rightarrow> string \<Rightarrow> string \<Rightarrow> reasoning \<Rightarrow> result \<Rightarrow> result \<Rightarrow> result \<Rightarrow> result
     \<Rightarrow> design_system" where
  "compose query projectName' category' rsn bestStyle bestColor bestTypography bestLanding =
     (let styleEffects = field (map_of bestStyle) ''Effects & Animation'';
          combinedEffects = or_else styleEffects (keyEffects rsn)
      in \<lparr>projectName = or_else projectName' (toUpperCase query),
          category = category',
          ds_pattern =
            \<lparr>pattern_name = or_else (field (map_of bestLanding) ''Pattern Name'')
                              (or_else (pattern rsn) ''Hero + Features + CTA''),
             sections = or_else (field (map_of bestLanding) ''Section Order'')
                          ''Hero > Features > CTA'',
             ctaPlacement = or_else (field (map_of bestLanding) ''Primary CTA Placement'')
                              ''Above fold'',
             colorStrategy = field (map_of bestLanding) ''Color Strategy'',
             conversion = field (map_of bestLanding) ''Conversion Optimization''\<rparr>,
          ds_style =
            \<lparr>style_name = or_else (field (map_of bestStyle) ''Style Category'') ''Minimalism'',
             style_type = or_else (field (map_of bestStyle) ''Type'') ''General'',
             effects = styleEffects,
             style_keywords = field (map_of bestStyle) ''Keywords'',
             style_bestFor = field (map_of bestStyle) ''Best For'',
             performance = field (map_of bestStyle) ''Performance'',
             accessibility = field (map_of bestStyle) ''Accessibility''\<rparr>,
          colors =
            \<lparr>primary = or_else (field (map_of bestColor) ''Primary (Hex)'') ''#2563EB'',
             secondary = or_else (field (map_of bestColor) ''Secondary (Hex)'') ''#3B82F6'',
             cta = or_else (field (map_of bestColor) ''CTA (Hex)'') ''#F97316'',
             background = or_else (field (map_of bestColor) ''Background (Hex)'') ''#F8FAFC'',
             text_color = or_else (field (map_of bestColor) ''Text (Hex)'') ''#1E293B'',
             color_notes = field (map_of bestColor) ''Notes''\<rparr>,
          typography =
            \<lparr>heading = or_else (field (map_of bestTypography) ''Heading Font'') ''Inter'',
             body = or_else (field (map_of bestTypography) ''Body Font'') ''Inter'',
             mood = or_else (field (map_of bestTypography) ''Mood/Style Keywords'')
                      (typographyMood rsn),
             typography_bestFor = field (map_of bestTypography) ''Best For'',
             googleFontsUrl = field (map_of bestTypography) ''Google Fonts URL'',
             cssImport = field (map_of bestTypography) ''CSS Import''\<rparr>,
          ds_keyEffects = combinedEffects,
          ds_antiPatterns = antiPatterns rsn,
          ds_severity = severity rsn\<rparr>)"

definition generateDesignSystem ::
  "(string \<Rightarrow> json option) \<Rightarrow> files \<Rightarrow> cache \<Rightarrow> string \<Rightarrow> string
     \<Rightarrow> error + (design_system \<times> cache)" where
  "generateDesignSystem parse fs c0 query projectName' =
     (case loadDesignData fs c0 ''ui-reasoning.json'' of
        Inl e \<Rightarrow> Inl e
      | Inr (reasoningData, c1) \<Rightarrow>
     (case searchDesignCSV fs c1 ''product'' query 1 of
        Inl e \<Rightarrow> Inl e
      | Inr (productResults, c2) \<Rightarrow>
     (let category' = or_else (field (map_of (first_or_empty productResults)) ''Product Type'')
                        ''General'';
          rsn = applyReasoning parse category' reasoningData;
          styleQuery = (if stylePriority rsn \<noteq> []
                        then query @ '' '' @ join '' '' (take 2 (stylePriority rsn))
                        else query)
      in
     (case searchDesignCSV fs c2 ''style'' styleQuery 3 of
        Inl e \<Rightarrow> Inl e
      | Inr (styleResults, c3) \<Rightarrow>
     (case searchDesignCSV fs c3 ''color'' query 2 of
        Inl e \<Rightarrow> Inl e
      | Inr (colorResults, c4) \<Rightarrow>
     (case searchDesignCSV fs c4 ''landing'' query 2 of
        Inl e \<Rightarrow> Inl e
      | Inr (landingResults, c5) \<Rightarrow>
     (case searchDesignCSV fs c5 ''typography'' query 2 of
        Inl e \<Rightarrow> Inl e
      | Inr (typographyResults, c6) \<Rightarrow>
          Inr (compose query projectName' category' rsn
                 (selectBestMatch styleResults (stylePriority rsn))
                 (first_or_empty colorResults)
                 (first_or_empty typographyResults)
                 (first_or_empty landingResults), c6))))))))"

section \<open>Notions used in the proofs\<close>

text \<open>What \<open>loadDesignData\<close> yields for a file name, given the files and the cache.\<close>

definition stored :: "files \<Rightarrow> cache \<Rightarrow> string \<Rightarrow> error + row list" where
  "stored fs c filename = (case c filename of Some data \<Rightarrow> Inr data | None \<Rightarrow> fs filename)"

text \<open>A comparison function is consistent on a set when "not after" is transitive and no two
  elements are each placed after the other.\<close>

definition consistent_on :: "'a set \<Rightarrow> ('a \<Rightarrow> 'a \<Rightarrow> jsnum) \<Rightarrow> bool" where
  "consistent_on S cmp \<longleftrightarrow>
     (\<forall>u\<in>S. \<forall>v\<in>S. \<forall>w\<in>S. \<not> js_positive (cmp u v) \<longrightarrow> \<not> js_positive (cmp v w)
         \<longrightarrow> \<not> js_positive (cmp u w)) \<and>
     (\<forall>u\<in>S. \<forall>v\<in>S. js_positive (cmp u v) \<longrightarrow> \<not> js_positive (cmp v u))"

text \<open>The number of documents that contain a word.\<close>

definition df_count :: "string list list \<Rightarrow> string \<Rightarrow> nat" where
  "df_count c w = length (filter (\<lambda>d. w \<in> set d) c)"

text \<open>What one round of the scoring loop adds for a token with a numeric IDF and term frequency,
  as a real number.\<close>

definition bm25_term :: "real \<Rightarrow> real \<Rightarrow> real \<Rightarrow> real \<Rightarrow> real \<Rightarrow> real \<Rightarrow> real" where
  "bm25_term kk bb av idfVal tf dl =
     idfVal * (tf * (kk + 1)) / (tf + kk * (1 - bb + bb * dl / av))"

text \<open>The numeric term frequency of a token: its count, or zero when it has none.\<close>

definition tf_real :: "(string \<rightharpoonup> count) \<Rightarrow> string \<Rightarrow> real" where
  "tf_real termFreqs token = (case termFreqs token of Some (Cnt n) \<Rightarrow> real n | _ \<Rightarrow> 0)"

text \<open>The real number that a query token adds to the score of a document.\<close>

definition contribution :: "BM25 \<Rightarrow> (string \<rightharpoonup> count) \<Rightarrow> real \<Rightarrow> string \<Rightarrow> real" where
  "contribution st termFreqs dl token =
     (case idf st token of
        Some (Fin v) \<Rightarrow> bm25_term (k1 st) (b st) (avgdl st) v (tf_real termFreqs token) dl
      | _ \<Rightarrow> 0)"

text \<open>A query token whose IDF entry is NaN or inherited.\<close>

definition nan_token :: "BM25 \<Rightarrow> string \<Rightarrow> bool" where
  "nan_token st token \<longleftrightarrow> idf_lookup (idf st) token = Some NaN"

text \<open>Every IDF entry is NaN or a non-negative number; a numeric entry belongs to a word that is
  not inherited, and then the average document length is positive.\<close>

definition vocabulary_ok :: "BM25 \<Rightarrow> bool" where
  "vocabulary_ok st \<longleftrightarrow>
     (\<forall>w v. idf st w = Some v \<longrightarrow>
        v = NaN \<or> (\<exists>r. v = Fin r \<and> 0 \<le> r \<and> w \<notin> set proto_keys \<and> 0 < avgdl st))"

text \<open>No word outside the inherited names has a \<open>Junk\<close> counter.\<close>

definition counts_ok :: "(string \<rightharpoonup> count) \<Rightarrow> bool" where
  "counts_ok termFreqs \<longleftrightarrow> (\<forall>w. w \<notin> set proto_keys \<longrightarrow> termFreqs w \<noteq> Some Junk)"

text \<open>The sum of the contributions of the query tokens for the document at an index.\<close>

definition doc_sum :: "BM25 \<Rightarrow> string list \<Rightarrow> nat \<Rightarrow> real" where
  "doc_sum st queryTokens idx =
     sum_list (map (contribution st (termFreqs_of (corpus st ! idx))
                      (real (length (corpus st ! idx)))) queryTokens)"

section \<open>Properties of the reasoning matcher and the selection heuristic\<close>

lemma str_includes_empty: "str_includes s [] = True"
  by (induction s) simp_all

lemma find_first_match:
  "x \<in> set xs \<Longrightarrow> P x \<Longrightarrow> \<exists>y. find P xs = Some y \<and> y \<in> set xs \<and> P y"
  by (induction xs) auto

text \<open>
  Claim C9. For a non-empty list of results and the empty list of priority keywords,
  \<open>selectBestMatch\<close> returns the first result; for the empty list of results it returns the
  empty record, whatever the priority keywords are.
\<close>

theorem selectBestMatch_trivial_cases:
  "selectBestMatch (r # rs) [] = r \<and> selectBestMatch [] priorityKeywords = []"
  by (simp add: selectBestMatch_def)

text \<open>
  Claim C3. When the category is equal, up to letter case, to the category of some rule of
  the table, \<open>findReasoningRule\<close> returns a rule of the table with that category, namely the
  first one in table order. For the empty table it returns none. When
  \<open>findReasoningRule\<close> finds no rule, \<open>applyReasoning\<close> returns the fixed default record:
  pattern "Hero + Features + CTA", style priority Minimalism and Flat Design, severity
  MEDIUM.
\<close>

theorem findReasoningRule_exact_match:
  "(rule \<in> set reasoningData \<and>
      toLowerCase (field rule ''UI_Category'') = toLowerCase category' \<longrightarrow>
      (\<exists>r. findReasoningRule category' reasoningData = Some r \<and> r \<in> set reasoningData \<and>
           toLowerCase (field r ''UI_Category'') = toLowerCase category' \<and>
           find (\<lambda>x. toLowerCase (field x ''UI_Category'') = toLowerCase category')
             reasoningData = Some r)) \<and>
   findReasoningRule category' [] = None \<and>
   (findReasoningRule category' reasoningData = None \<longrightarrow>
      applyReasoning parse category' reasoningData =
        \<lparr>pattern = ''Hero + Features + CTA'',
         stylePriority = [''Minimalism'', ''Flat Design''],
         colorMood = ''Professional'',
         typographyMood = ''Clean'',
         keyEffects = ''Subtle hover transitions'',
         antiPatterns = [],
         decisionRules = None,
         severity = ''MEDIUM''\<rparr>)"
proof (intro conjI impI)
  assume a: "rule \<in> set reasoningData \<and>
      toLowerCase (field rule ''UI_Category'') = toLowerCase category'"
  then obtain y where y:
    "find (\<lambda>x. toLowerCase (field x ''UI_Category'') = toLowerCase category')
       reasoningData = Some y"
    "y \<in> set reasoningData"
    "toLowerCase (field y ''UI_Category'') = toLowerCase category'"
    using find_first_match[of rule reasoningData
        "\<lambda>x. toLowerCase (field x ''UI_Category'') = toLowerCase category'"] by blast
  then show "\<exists>r. findReasoningRule category' reasoningData = Some r \<and> r \<in> set reasoningData \<and>
           toLowerCase (field r ''UI_Category'') = toLowerCase category' \<and>
           find (\<lambda>x. toLowerCase (field x ''UI_Category'') = toLowerCase category')
             reasoningData = Some r"
    by (simp add: findReasoningRule_def)
next
  show "findReasoningRule category' [] = None"
    by (simp add: findReasoningRule_def)
next
  assume "findReasoningRule category' reasoningData = None"
  then show "applyReasoning parse category' reasoningData =
        \<lparr>pattern = ''Hero + Features + CTA'',
         stylePriority = [''Minimalism'', ''Flat Design''],
         colorMood = ''Professional'',
         typographyMood = ''Clean'',
         keyEffects = ''Subtle hover transitions'',
         antiPatterns = [],
         decisionRules = None,
         severity = ''MEDIUM''\<rparr>"
    by (simp add: applyReasoning_def)
qed

theorem findReasoningRule_exact_match_witness:
  "(\<exists>r. findReasoningRule ''saas'' [[''UI_Category'' \<mapsto> ''SaaS'']] = Some r \<and>
        toLowerCase (field r ''UI_Category'') = toLowerCase ''saas'') \<and>
   findReasoningRule ''saas'' [] = None \<and>
   severity (applyReasoning (\<lambda>s. None) ''saas'' []) = ''MEDIUM''"
proof -
  have h1: "[''UI_Category'' \<mapsto> ''SaaS''] \<in> set [[''UI_Category'' \<mapsto> ''SaaS'']] \<and>
     toLowerCase (field [''UI_Category'' \<mapsto> ''SaaS''] ''UI_Category'') = toLowerCase ''saas''"
    by (simp add: field_def toLowerCase_def toLowerCase_char_def is_upper_def)
  have h2: "findReasoningRule ''saas'' [] = None"
    by (simp add: findReasoningRule_def)
  from findReasoningRule_exact_match[of "[''UI_Category'' \<mapsto> ''SaaS'']"
      "[[''UI_Category'' \<mapsto> ''SaaS'']]" "''saas''" "\<lambda>s. None"] h1
  have c1: "\<exists>r. findReasoningRule ''saas'' [[''UI_Category'' \<mapsto> ''SaaS'']] = Some r \<and>
        toLowerCase (field r ''UI_Category'') = toLowerCase ''saas''"
    by blast
  from findReasoningRule_exact_match[of Map.empty "[]" "''saas''" "\<lambda>s. None"] h2
  have c2: "severity (applyReasoning (\<lambda>s. None) ''saas'' []) = ''MEDIUM''"
    by simp
  from c1 h2 c2 show ?thesis by blast
qed

lemma style_matches_empty_name:
  "field (map_of r) ''Style Category'' = [] \<Longrightarrow> style_matches priority r"
  by (simp add: style_matches_def toLowerCase_def str_includes_empty)

text \<open>
  Claim C10 as stated fails: a result with a name comes first and matches the first priority
  keyword, a result without a name comes second, and \<open>selectBestMatch\<close> returns the named
  one, not the first result whose "Style Category" is absent or empty.
\<close>

theorem selectBestMatch_empty_name_counterexample:
  "[[(''Style Category'', ''Minimalism'')], [(''Keywords'', ''clean'')]] \<noteq> [] \<and>
   [''Minimalism''] \<noteq> [] \<and>
   find (\<lambda>r. field (map_of r) ''Style Category'' = [])
     [[(''Style Category'', ''Minimalism'')], [(''Keywords'', ''clean'')]]
     = Some [(''Keywords'', ''clean'')] \<and>
   selectBestMatch [[(''Style Category'', ''Minimalism'')], [(''Keywords'', ''clean'')]]
     [''Minimalism''] = [(''Style Category'', ''Minimalism'')] \<and>
   selectBestMatch [[(''Style Category'', ''Minimalism'')], [(''Keywords'', ''clean'')]]
     [''Minimalism''] \<noteq> [(''Keywords'', ''clean'')]"
  by code_simp

text \<open>
  Claim C10, amended. For a list of results in which some result has an absent or empty
  "Style Category", and a non-empty list of priority keywords, \<open>selectBestMatch\<close> returns the
  first result in list order that either has an absent or empty "Style Category" or whose
  name matches the first priority keyword as a substring in either direction. The first
  keyword alone decides: the later keywords and the second-phase score are not consulted.
\<close>

theorem selectBestMatch_empty_name:
  "(\<exists>e \<in> set results. field (map_of e) ''Style Category'' = []) \<longrightarrow>
     (\<exists>r. find (\<lambda>x. field (map_of x) ''Style Category'' = [] \<or> style_matches priority x) results
            = Some r \<and>
          selectBestMatch results (priority # ps) = r)"
proof
  assume "\<exists>e \<in> set results. field (map_of e) ''Style Category'' = []"
  then obtain e where e: "e \<in> set results" "field (map_of e) ''Style Category'' = []" by blast
  have eq: "(\<lambda>x. field (map_of x) ''Style Category'' = [] \<or> style_matches priority x)
          = style_matches priority"
    using style_matches_empty_name by auto
  from e obtain r where r: "find (style_matches priority) results = Some r"
    using find_first_match[of e results "style_matches priority"] style_matches_empty_name
    by blast
  from e(1) obtain r0 rest where res: "results = r0 # rest" by (cases results) auto
  have "selectBestMatch results (priority # ps) = r"
    using r unfolding selectBestMatch_def res by simp
  with r eq show "\<exists>r. find (\<lambda>x. field (map_of x) ''Style Category'' = [] \<or>
                        style_matches priority x) results = Some r \<and>
      selectBestMatch results (priority # ps) = r"
    by simp
qed

theorem selectBestMatch_empty_name_witness:
  "(\<exists>e \<in> set [[(''Style Category'', ''Glass'')], [(''Keywords'', ''clean'')]].
       field (map_of e) ''Style Category'' = []) \<and>
   selectBestMatch [[(''Style Category'', ''Glass'')], [(''Keywords'', ''clean'')]]
     [''Minimalism'', ''Glass''] = [(''Keywords'', ''clean'')]"
proof -
  have h: "\<exists>e \<in> set [[(''Style Category'', ''Glass'')], [(''Keywords'', ''clean'')]].
       field (map_of e) ''Style Category'' = []"
    by (simp add: field_def)
  have f: "find (\<lambda>x. field (map_of x) ''Style Category'' = [] \<or> style_matches ''Minimalism'' x)
     [[(''Style Category'', ''Glass'')], [(''Keywords'', ''clean'')]]
       = Some [(''Keywords'', ''clean'')]"
    by code_simp
  from selectBestMatch_empty_name[of
      "[[(''Style Category'', ''Glass'')], [(''Keywords'', ''clean'')]]"
      "''Minimalism''" "[''Glass'']"] h
  obtain r where r:
    "find (\<lambda>x. field (map_of x) ''Style Category'' = [] \<or> style_matches ''Minimalism'' x)
       [[(''Style Category'', ''Glass'')], [(''Keywords'', ''clean'')]] = Some r"
    "selectBestMatch [[(''Style Category'', ''Glass'')], [(''Keywords'', ''clean'')]]
       [''Minimalism'', ''Glass''] = r"
    by blast
  from r(1) f have "r = [(''Keywords'', ''clean'')]" by simp
  with r(2) h show ?thesis by blast
qed

section \<open>Re-fitting an index\<close>

lemma tokenize_fitness_app: "tokenize ''fitness app'' = [''fitness'', ''app'']"
  by code_simp

text \<open>A second \<open>fit\<close> on documents that are not empty overwrites every derived field, and
  after \<open>fit\<close> on no documents \<open>score\<close> returns the empty sequence.\<close>

lemma fit_refit_nonempty:
  "documents \<noteq> [] \<Longrightarrow> fit documents st = fit documents (BM25_new (k1 st) (b st))"
  by (cases st) (simp add: fit_def BM25_new_def Let_def)

lemma score_after_empty_fit: "score query (fit [] st) = []"
  by (simp add: score_def fit_def array_sort_def)

text \<open>
  Claim C5 fails on the code. \<open>fit\<close> returns at \<open>if (this.N === 0) return\<close> before it
  resets the derived statistics, so after fitting one document and then no documents the
  index keeps the document lengths, the average length, the document frequencies and the IDF
  table of the first corpus, while a fresh index fitted on no documents has them empty or
  zero.
\<close>

theorem fit_empty_after_nonempty_keeps_statistics:
  "docLengths (fit [] (fit [''fitness app''] BM25_default)) = [2] \<and>
   avgdl (fit [] (fit [''fitness app''] BM25_default)) = 2 \<and>
   docFreqs (fit [] (fit [''fitness app''] BM25_default)) ''fitness'' = Some (Cnt 1) \<and>
   idf (fit [] (fit [''fitness app''] BM25_default)) ''fitness'' = Some (Fin (idf_value 1 1)) \<and>
   docLengths (fit [] BM25_default) = [] \<and>
   avgdl (fit [] BM25_default) = 0 \<and>
   docFreqs (fit [] BM25_default) ''fitness'' = None \<and>
   idf (fit [] BM25_default) ''fitness'' = None \<and>
   fit [] (fit [''fitness app''] BM25_default) \<noteq> fit [] BM25_default"
proof -
  have a: "docLengths (fit [] (fit [''fitness app''] BM25_default)) = [2]"
    by (simp add: fit_def Let_def tokenize_fitness_app)
  have b0: "docLengths (fit [] BM25_default) = []"
    by (simp add: fit_def Let_def BM25_default_def BM25_new_def)
  have c: "avgdl (fit [] (fit [''fitness app''] BM25_default)) = 2"
    by (simp add: fit_def Let_def tokenize_fitness_app)
  have d: "docFreqs (fit [] (fit [''fitness app''] BM25_default)) ''fitness'' = Some (Cnt 1)"
    by (simp add: fit_def Let_def tokenize_fitness_app obj_set_def obj_get_def bump_def
        proto_keys_def)
  have e: "idf (fit [] (fit [''fitness app''] BM25_default)) ''fitness''
      = Some (Fin (idf_value 1 1))"
    by (simp add: fit_def Let_def tokenize_fitness_app obj_set_def obj_get_def bump_def
        proto_keys_def idf_table_def)
  have f: "avgdl (fit [] BM25_default) = 0" "docFreqs (fit [] BM25_default) ''fitness'' = None"
     "idf (fit [] BM25_default) ''fitness'' = None"
    by (simp_all add: fit_def Let_def BM25_default_def BM25_new_def)
  from a b0 have "fit [] (fit [''fitness app''] BM25_default) \<noteq> fit [] BM25_default"
    by (metis list.distinct(1))
  with a b0 c d e f show ?thesis by blast
qed

section \<open>The composer on empty collections\<close>

lemma loadDesignData_stored:
  assumes "stored fs c filename = Inr data"
  shows "\<exists>c'. loadDesignData fs c filename = Inr (data, c') \<and> stored fs c' = stored fs c"
proof (cases "c filename")
  case None
  with assms have "fs filename = Inr data" by (simp add: stored_def)
  with None have "loadDesignData fs c filename = Inr (data, c(filename \<mapsto> data))"
    by (simp add: loadDesignData_def)
  moreover have "stored fs (c(filename \<mapsto> data)) = stored fs c"
    using None \<open>fs filename = Inr data\<close> by (auto simp: stored_def fun_eq_iff)
  ultimately show ?thesis by blast
next
  case (Some d)
  with assms show ?thesis by (simp add: stored_def loadDesignData_def)
qed

lemma search_hits_empty: "search_hits cfg [] query m = []"
  by (simp add: search_hits_def documents_of_def fit_def score_def array_sort_def
      array_slice0_def BM25_default_def BM25_new_def)

lemma searchDesignCSV_empty:
  assumes "DESIGN_CSV_CONFIG domain = Some cfg" and "stored fs c (file_name cfg) = Inr []"
  shows "\<exists>c'. searchDesignCSV fs c domain query m = Inr ([], c') \<and> stored fs c' = stored fs c"
proof -
  from loadDesignData_stored[OF assms(2)] obtain c' where
    c': "loadDesignData fs c (file_name cfg) = Inr ([], c')" "stored fs c' = stored fs c"
    by blast
  have "searchDesignCSV fs c domain query m = Inr ([], c')"
    using assms(1) c'(1) by (simp add: searchDesignCSV_def obj_get_def search_hits_empty)
  with c'(2) show ?thesis by blast
qed

lemma config_known:
  "\<exists>cfg. DESIGN_CSV_CONFIG ''product'' = Some cfg \<and> file_name cfg = ''products.json''"
  "\<exists>cfg. DESIGN_CSV_CONFIG ''style'' = Some cfg \<and> file_name cfg = ''styles.json''"
  "\<exists>cfg. DESIGN_CSV_CONFIG ''color'' = Some cfg \<and> file_name cfg = ''colors.json''"
  "\<exists>cfg. DESIGN_CSV_CONFIG ''landing'' = Some cfg \<and> file_name cfg = ''landing.json''"
  "\<exists>cfg. DESIGN_CSV_CONFIG ''typography'' = Some cfg \<and> file_name cfg = ''typography.json''"
  by (simp_all add: DESIGN_CSV_CONFIG_def)

text \<open>
  Claim C4. When the rule table loads and each of the five collections loads as the empty
  list, \<open>generateDesignSystem\<close> returns a record (it raises no error), and the primary colour
  of that record is the default "#2563EB"; this holds for every query and project name, in
  particular for "fitness app" and "FitCo".
\<close>

theorem generateDesignSystem_empty_collections:
  assumes "stored fs c0 ''ui-reasoning.json'' = Inr reasoningData"
    and "stored fs c0 ''products.json'' = Inr []"
    and "stored fs c0 ''styles.json'' = Inr []"
    and "stored fs c0 ''colors.json'' = Inr []"
    and "stored fs c0 ''landing.json'' = Inr []"
    and "stored fs c0 ''typography.json'' = Inr []"
  shows "\<exists>ds c'. generateDesignSystem parse fs c0 query projectName' = Inr (ds, c') \<and>
           primary (colors ds) = ''#2563EB''"
proof -
  from loadDesignData_stored[OF assms(1)] obtain c1 where
    c1: "loadDesignData fs c0 ''ui-reasoning.json'' = Inr (reasoningData, c1)"
        "stored fs c1 = stored fs c0" by blast
  from config_known(1) obtain cp where cp: "DESIGN_CSV_CONFIG ''product'' = Some cp"
    "file_name cp = ''products.json''" by blast
  from searchDesignCSV_empty[OF cp(1), of fs c1 query 1] c1(2) assms(2) cp(2) obtain c2 where
    c2: "searchDesignCSV fs c1 ''product'' query 1 = Inr ([], c2)" "stored fs c2 = stored fs c1"
    by auto
  define sq where "sq =
    (if stylePriority (applyReasoning parse ''General'' reasoningData) \<noteq> []
     then query @ '' '' @
          join '' '' (take 2 (stylePriority (applyReasoning parse ''General'' reasoningData)))
     else query)"
  from config_known(2) obtain cs where cs: "DESIGN_CSV_CONFIG ''style'' = Some cs"
    "file_name cs = ''styles.json''" by blast
  from searchDesignCSV_empty[OF cs(1), of fs c2 sq 3] c1(2) c2(2) assms(3) cs(2) obtain c3 where
    c3: "searchDesignCSV fs c2 ''style'' sq 3 = Inr ([], c3)" "stored fs c3 = stored fs c2"
    by auto
  from config_known(3) obtain cc where cc: "DESIGN_CSV_CONFIG ''color'' = Some cc"
    "file_name cc = ''colors.json''" by blast
  from searchDesignCSV_empty[OF cc(1), of fs c3 query 2] c1(2) c2(2) c3(2) assms(4) cc(2)
  obtain c4 where
    c4: "searchDesignCSV fs c3 ''color'' query 2 = Inr ([], c4)" "stored fs c4 = stored fs c3"
    by auto
  from config_known(4) obtain cl where cl: "DESIGN_CSV_CONFIG ''landing'' = Some cl"
    "file_name cl = ''landing.json''" by blast
  from searchDesignCSV_empty[OF cl(1), of fs c4 query 2] c1(2) c2(2) c3(2) c4(2) assms(5) cl(2)
  obtain c5 where
    c5: "searchDesignCSV fs c4 ''landing'' query 2 = Inr ([], c5)" "stored fs c5 = stored fs c4"
    by auto
  from config_known(5) obtain ct where ct: "DESIGN_CSV_CONFIG ''typography'' = Some ct"
    "file_name ct = ''typography.json''" by blast
  from searchDesignCSV_empty[OF ct(1), of fs c5 query 2] c1(2) c2(2) c3(2) c4(2) c5(2)
    assms(6) ct(2)
  obtain c6 where
    c6: "searchDesignCSV fs c5 ''typography'' query 2 = Inr ([], c6)"
    by auto
  have "generateDesignSystem parse fs c0 query projectName' =
      Inr (compose query projectName' ''General''
             (applyReasoning parse ''General'' reasoningData)
             (selectBestMatch [] (stylePriority (applyReasoning parse ''General'' reasoningData)))
             [] [] [], c6)"
    unfolding generateDesignSystem_def
    using c1(1) c2(1) c3(1)[unfolded sq_def] c4(1) c5(1) c6(1)
    by (cases "stylePriority (applyReasoning parse ''General'' reasoningData) = []")
       (simp_all add: Let_def first_or_empty_def field_def or_else_def)
  moreover have "primary (colors (compose query projectName' ''General''
             (applyReasoning parse ''General'' reasoningData)
             (selectBestMatch [] (stylePriority (applyReasoning parse ''General'' reasoningData)))
             [] [] [])) = ''#2563EB''"
    by (simp add: compose_def Let_def field_def or_else_def)
  ultimately show ?thesis by simp
qed

theorem generateDesignSystem_empty_collections_witness:
  "stored (\<lambda>f. Inr []) Map.empty ''ui-reasoning.json'' = Inr [] \<and>
   stored (\<lambda>f. Inr []) Map.empty ''products.json'' = Inr [] \<and>
   stored (\<lambda>f. Inr []) Map.empty ''styles.json'' = Inr [] \<and>
   stored (\<lambda>f. Inr []) Map.empty ''colors.json'' = Inr [] \<and>
   stored (\<lambda>f. Inr []) Map.empty ''landing.json'' = Inr [] \<and>
   stored (\<lambda>f. Inr []) Map.empty ''typography.json'' = Inr [] \<and>
   (\<exists>ds c'. generateDesignSystem (\<lambda>s. None) (\<lambda>f. Inr []) Map.empty ''fitness app'' ''FitCo''
        = Inr (ds, c') \<and> primary (colors ds) = ''#2563EB'')"
proof -
  have h: "\<And>f. stored (\<lambda>f. Inr []) Map.empty f = Inr []"
    by (simp add: stored_def)
  from generateDesignSystem_empty_collections[OF h h h h h h,
      of "\<lambda>s. None" "''fitness app''" "''FitCo''"] h
  show ?thesis by blast
qed

section \<open>Properties of the sort\<close>

lemma consistent_on_trans:
  "consistent_on S cmp \<Longrightarrow> u \<in> S \<Longrightarrow> v \<in> S \<Longrightarrow> w \<in> S \<Longrightarrow>
     \<not> js_positive (cmp u v) \<Longrightarrow> \<not> js_positive (cmp v w) \<Longrightarrow> \<not> js_positive (cmp u w)"
  unfolding consistent_on_def by blast

lemma consistent_on_asym:
  "consistent_on S cmp \<Longrightarrow> u \<in> S \<Longrightarrow> v \<in> S \<Longrightarrow> js_positive (cmp u v) \<Longrightarrow>
     \<not> js_positive (cmp v u)"
  unfolding consistent_on_def by blast

lemma consistent_on_subset:
  "consistent_on T cmp \<Longrightarrow> S \<subseteq> T \<Longrightarrow> consistent_on S cmp"
  unfolding consistent_on_def by (meson subsetD)

lemma mset_sort_insert: "mset (sort_insert cmp x ys) = add_mset x (mset ys)"
  by (induction ys) simp_all

lemma mset_array_sort: "mset (array_sort cmp xs) = mset xs"
  unfolding array_sort_def by (induction xs) (simp_all add: mset_sort_insert)

lemma set_sort_insert: "set (sort_insert cmp x ys) = insert x (set ys)"
  using mset_sort_insert[of cmp x ys] by (metis set_mset_add_mset_insert set_mset_mset)

lemma set_array_sort: "set (array_sort cmp xs) = set xs"
  using mset_array_sort[of cmp xs] by (metis set_mset_mset)

lemma length_array_sort: "length (array_sort cmp xs) = length xs"
  using mset_array_sort[of cmp xs] by (metis size_mset)

lemma sorted_sort_insert:
  assumes "sorted_wrt (\<lambda>u v. \<not> js_positive (cmp u v)) ys"
    and "consistent_on (insert x (set ys)) cmp"
  shows "sorted_wrt (\<lambda>u v. \<not> js_positive (cmp u v)) (sort_insert cmp x ys)"
  using assms
proof (induction ys)
  case Nil
  then show ?case by simp
next
  case (Cons y ys)
  note con = Cons.prems(2)
  have sub: "consistent_on (insert x (set ys)) cmp"
    by (rule consistent_on_subset[OF con]) auto
  have srt: "sorted_wrt (\<lambda>u v. \<not> js_positive (cmp u v)) ys"
    and ylow: "\<forall>z \<in> set ys. \<not> js_positive (cmp y z)"
    using Cons.prems(1) by simp_all
  show ?case
  proof (cases "js_positive (cmp x y)")
    case True
    have ih: "sorted_wrt (\<lambda>u v. \<not> js_positive (cmp u v)) (sort_insert cmp x ys)"
      by (rule Cons.IH[OF srt sub])
    have "\<not> js_positive (cmp y x)"
      by (rule consistent_on_asym[OF con _ _ True]) simp_all
    with ylow have "\<forall>z \<in> set (sort_insert cmp x ys). \<not> js_positive (cmp y z)"
      by (simp add: set_sort_insert)
    with True ih show ?thesis by simp
  next
    case False
    have "\<forall>z \<in> set ys. \<not> js_positive (cmp x z)"
    proof
      fix z assume z: "z \<in> set ys"
      with ylow have yz: "\<not> js_positive (cmp y z)" by simp
      show "\<not> js_positive (cmp x z)"
        by (rule consistent_on_trans[OF con _ _ _ False yz]) (simp_all add: z)
    qed
    with False srt ylow show ?thesis by simp
  qed
qed

lemma sorted_array_sort:
  assumes "consistent_on (set xs) cmp"
  shows "sorted_wrt (\<lambda>u v. \<not> js_positive (cmp u v)) (array_sort cmp xs)"
  using assms
proof (induction xs)
  case Nil
  then show ?case by (simp add: array_sort_def)
next
  case (Cons x xs)
  have sub: "consistent_on (set xs) cmp"
    by (rule consistent_on_subset[OF Cons.prems]) auto
  have ih: "sorted_wrt (\<lambda>u v. \<not> js_positive (cmp u v)) (array_sort cmp xs)"
    by (rule Cons.IH[OF sub])
  have "sorted_wrt (\<lambda>u v. \<not> js_positive (cmp u v)) (sort_insert cmp x (array_sort cmp xs))"
    using Cons.prems by (intro sorted_sort_insert[OF ih]) (simp add: set_array_sort)
  then show ?case by (simp add: array_sort_def)
qed

section \<open>The statistics computed by fit\<close>

lemma fit_doc_closed:
  "fit_doc ws seen df =
     (\<lambda>w. if w \<in> set ws \<and> w \<notin> seen \<and> w \<noteq> ''__proto__''
          then Some (bump (obj_get df w)) else df w)"
proof (induction ws arbitrary: seen df)
  case Nil
  then show ?case by simp
next
  case (Cons word ws)
  show ?case
  proof (rule ext)
    fix w
    show "fit_doc (word # ws) seen df w =
       (if w \<in> set (word # ws) \<and> w \<notin> seen \<and> w \<noteq> ''__proto__''
        then Some (bump (obj_get df w)) else df w)"
    proof (cases "word \<in> seen")
      case True
      then show ?thesis by (auto simp: Cons.IH)
    next
      case False
      have g: "w \<noteq> word \<Longrightarrow>
          obj_get (obj_set df word (bump (obj_get df word))) w = obj_get df w"
        by (simp add: obj_get_def obj_set_def)
      have s: "obj_set df word (bump (obj_get df word)) w =
          (if w = word \<and> w \<noteq> ''__proto__'' then Some (bump (obj_get df word)) else df w)"
        by (simp add: obj_set_def)
      show ?thesis
      proof (cases "w = word")
        case True
        with False show ?thesis by (simp add: Cons.IH obj_set_def)
      next
        case neq: False
        with False show ?thesis by (simp add: Cons.IH s g)
      qed
    qed
  qed
qed

lemma proto_in_keys: "''__proto__'' \<in> set proto_keys"
  by (simp add: proto_keys_def)

lemma fit_docs_count:
  assumes "w \<notin> set proto_keys"
    and "df w = (if m = 0 then None else Some (Cnt m))"
  shows "fit_docs c df w =
           (if m + df_count c w = 0 then None else Some (Cnt (m + df_count c w)))"
  using assms(2)
proof (induction c arbitrary: df m)
  case Nil
  then show ?case by (simp add: df_count_def)
next
  case (Cons d c)
  have np: "w \<noteq> ''__proto__''" using assms(1) proto_in_keys by auto
  show ?case
  proof (cases "w \<in> set d")
    case True
    have "fit_doc d {} df w = Some (Cnt (m + 1))"
      using True np Cons.prems assms(1)
      by (simp add: fit_doc_closed obj_get_def bump_def)
    then have "fit_doc d {} df w = (if m + 1 = 0 then None else Some (Cnt (m + 1)))" by simp
    from Cons.IH[of "fit_doc d {} df" "m + 1", OF this] True show ?thesis
      by (simp add: df_count_def)
  next
    case False
    have "fit_doc d {} df w = (if m = 0 then None else Some (Cnt m))"
      using False Cons.prems by (simp add: fit_doc_closed)
    from Cons.IH[of "fit_doc d {} df" m, OF this] False show ?thesis
      by (simp add: df_count_def)
  qed
qed

lemma fit_docs_proto:
  assumes "w \<in> set proto_keys" and "df w = None \<or> df w = Some Junk"
  shows "fit_docs c df w = None \<or> fit_docs c df w = Some Junk"
  using assms(2)
proof (induction c arbitrary: df)
  case Nil
  then show ?case by simp
next
  case (Cons d c)
  have "fit_doc d {} df w = None \<or> fit_doc d {} df w = Some Junk"
    using Cons.prems assms(1) by (auto simp: fit_doc_closed obj_get_def bump_def)
  from Cons.IH[of "fit_doc d {} df", OF this] show ?case by simp
qed

lemma fit_docs_dom:
  assumes "df w = None" and "fit_docs c df w \<noteq> None"
  shows "0 < df_count c w"
  using assms
proof (induction c arbitrary: df)
  case Nil
  then show ?case by simp
next
  case (Cons d c)
  show ?case
  proof (cases "w \<in> set d")
    case True
    then show ?thesis by (simp add: df_count_def)
  next
    case False
    then have "fit_doc d {} df w = None" using Cons.prems(1) by (simp add: fit_doc_closed)
    from Cons.IH[of "fit_doc d {} df", OF this] Cons.prems(2) False show ?thesis
      by (simp add: df_count_def)
  qed
qed

lemma df_count_le: "df_count c w \<le> length c"
  by (simp add: df_count_def)

lemma fold_plus_sum_list: "fold (\<lambda>x a. a + x) xs (a0::nat) = a0 + sum_list xs"
  by (induction xs arbitrary: a0) simp_all

lemma df_count_pos_sum:
  "0 < df_count c w \<Longrightarrow> 0 < sum_list (map length c)"
proof (induction c)
  case Nil
  then show ?case by (simp add: df_count_def)
next
  case (Cons d c)
  then show ?case by (cases "w \<in> set d") (auto simp: df_count_def)
qed

lemma idf_value_nonneg: "freq \<le> n \<Longrightarrow> 0 \<le> idf_value n freq"
proof -
  assume "freq \<le> n"
  then have "0 \<le> (real n - real freq + 1 / 2) / (real freq + 1 / 2)" by simp
  then show ?thesis unfolding idf_value_def by simp
qed

section \<open>The scoring loop\<close>

lemma jadd_NaN_right: "jadd x NaN = NaN"
  by (cases x) simp_all

lemma score_token_NaN: "score_token st termFreqs docLen token NaN = NaN"
  by (simp add: score_token_def Let_def split: option.splits)

lemma score_token_nan_token:
  "nan_token st token \<Longrightarrow> score_token st termFreqs docLen token sc = NaN"
  by (simp add: score_token_def nan_token_def Let_def jadd_NaN_right)

lemma tf_lookup_counts_ok:
  "counts_ok termFreqs \<Longrightarrow> token \<notin> set proto_keys \<Longrightarrow>
     tf_lookup termFreqs token = Fin (tf_real termFreqs token)"
  by (cases "termFreqs token")
     (auto simp: counts_ok_def tf_lookup_def tf_real_def obj_get_def split: count.splits)

lemma tf_real_nonneg: "0 \<le> tf_real termFreqs token"
  by (simp add: tf_real_def split: option.splits count.splits)

lemma norm_pos:
  assumes "0 \<le> bb" "bb \<le> 1" "bb < 1 \<or> 0 < dl" "0 \<le> dl" "0 < av"
  shows "0 < 1 - bb + bb * dl / (av::real)"
proof (cases "bb < 1")
  case True
  have "0 \<le> bb * dl / av" using assms by simp
  with True show ?thesis by simp
next
  case False
  with assms have "bb = 1" "0 < dl" by auto
  with assms(5) show ?thesis by simp
qed

lemma den_pos:
  assumes "0 < kk" "0 \<le> bb" "bb \<le> 1" "bb < 1 \<or> 0 < dl" "0 \<le> dl" "0 < av" "0 \<le> tf"
  shows "0 < tf + kk * (1 - bb + bb * dl / (av::real))"
proof -
  from norm_pos[OF assms(2-6)] assms(1) have "0 < kk * (1 - bb + bb * dl / av)" by simp
  with assms(7) show ?thesis by simp
qed

lemma score_token_fin:
  assumes v: "vocabulary_ok st" and c: "counts_ok termFreqs"
    and p: "0 < k1 st" "0 \<le> b st" "b st \<le> 1" "0 < avgdl st \<longrightarrow> b st < 1 \<or> 0 < dl"
      "0 \<le> dl"
    and n: "\<not> nan_token st token"
  shows "score_token st termFreqs (Fin dl) token (Fin s)
           = Fin (s + contribution st termFreqs dl token)"
proof (cases "idf st token")
  case None
  with n have "token \<notin> set proto_keys"
    by (auto simp: nan_token_def idf_lookup_def obj_get_def split: if_splits)
  with None show ?thesis
    by (simp add: score_token_def idf_lookup_def obj_get_def contribution_def)
next
  case (Some x)
  with n have "x \<noteq> NaN" by (auto simp: nan_token_def idf_lookup_def obj_get_def)
  with v Some obtain r where r: "x = Fin r" "0 \<le> r" "token \<notin> set proto_keys" "0 < avgdl st"
    unfolding vocabulary_ok_def by blast
  have tf: "tf_lookup termFreqs token = Fin (tf_real termFreqs token)"
    by (rule tf_lookup_counts_ok[OF c r(3)])
  from p(4) r(4) have p4: "b st < 1 \<or> 0 < dl" by simp
  have d: "0 < tf_real termFreqs token + k1 st * (1 - b st + b st * dl / avgdl st)"
    by (rule den_pos[OF p(1-3) p4 p(5) r(4) tf_real_nonneg])
  have il: "idf_lookup (idf st) token = Some (Fin r)"
    using Some r(1) by (simp add: idf_lookup_def obj_get_def)
  have av: "avgdl st \<noteq> 0" using r(4) by simp
  have d0: "tf_real termFreqs token + k1 st * (1 - b st + b st * dl / avgdl st) \<noteq> 0"
    using d by simp
  show ?thesis
    using Some r(1)
    by (simp add: score_token_def il tf Let_def av d0 contribution_def bm25_term_def)
qed

lemma fold_score_token_NaN:
  "fold (score_token st termFreqs docLen) q NaN = NaN"
  by (induction q) (simp_all add: score_token_NaN)

lemma fold_score_token_nan_token:
  "\<exists>t \<in> set q. nan_token st t \<Longrightarrow> fold (score_token st termFreqs docLen) q sc = NaN"
proof (induction q arbitrary: sc)
  case Nil
  then show ?case by simp
next
  case (Cons t q)
  show ?case
  proof (cases "nan_token st t")
    case True
    then show ?thesis by (simp add: score_token_nan_token fold_score_token_NaN)
  next
    case False
    with Cons.prems have "\<exists>t \<in> set q. nan_token st t" by simp
    from Cons.IH[OF this] show ?thesis by simp
  qed
qed

lemma fold_score_token_fin:
  assumes v: "vocabulary_ok st" and c: "counts_ok termFreqs"
    and p: "0 < k1 st" "0 \<le> b st" "b st \<le> 1" "0 < avgdl st \<longrightarrow> b st < 1 \<or> 0 < dl"
      "0 \<le> dl"
  shows "\<forall>t \<in> set q. \<not> nan_token st t \<Longrightarrow>
     fold (score_token st termFreqs (Fin dl)) q (Fin s)
       = Fin (s + sum_list (map (contribution st termFreqs dl) q))"
proof (induction q arbitrary: s)
  case Nil
  then show ?case by simp
next
  case (Cons t q)
  from Cons.prems have nt: "\<not> nan_token st t" and rest: "\<forall>t \<in> set q. \<not> nan_token st t"
    by simp_all
  have "fold (score_token st termFreqs (Fin dl)) (t # q) (Fin s)
      = fold (score_token st termFreqs (Fin dl)) q (Fin (s + contribution st termFreqs dl t))"
    by (simp add: score_token_fin[OF v c p nt])
  also have "\<dots> = Fin (s + contribution st termFreqs dl t
                          + sum_list (map (contribution st termFreqs dl) q))"
    by (rule Cons.IH[OF rest])
  finally show ?case by (simp add: add.assoc)
qed

lemma score_tokens_cases:
  assumes v: "vocabulary_ok st" and c: "counts_ok termFreqs"
    and p: "0 < k1 st" "0 \<le> b st" "b st \<le> 1" "0 < avgdl st \<longrightarrow> b st < 1 \<or> 0 < dl"
      "0 \<le> dl"
  shows "score_tokens st termFreqs (Fin dl) q =
     (if \<exists>t \<in> set q. nan_token st t then NaN
      else Fin (sum_list (map (contribution st termFreqs dl) q)))"
proof (cases "\<exists>t \<in> set q. nan_token st t")
  case True
  then show ?thesis by (simp add: score_tokens_def fold_score_token_nan_token)
next
  case False
  then have "\<forall>t \<in> set q. \<not> nan_token st t" by simp
  from fold_score_token_fin[OF v c p this, of 0] False show ?thesis
    by (simp add: score_tokens_def)
qed

section \<open>The fitted index\<close>

lemma fit_nonempty_fields:
  assumes "documents \<noteq> []"
  shows "corpus (fit documents st0) = map tokenize documents"
    and "N (fit documents st0) = length documents"
    and "docLengths (fit documents st0) = map length (map tokenize documents)"
    and "avgdl (fit documents st0)
           = real (sum_list (map length (map tokenize documents))) / real (length documents)"
    and "docFreqs (fit documents st0) = fit_docs (map tokenize documents) Map.empty"
    and "idf (fit documents st0)
           = idf_table (length documents) (fit_docs (map tokenize documents) Map.empty)"
    and "k1 (fit documents st0) = k1 st0"
    and "b (fit documents st0) = b st0"
  using assms by (simp_all add: fit_def Let_def fold_plus_sum_list)

lemma fit_corpus: "corpus (fit documents st0) = map tokenize documents"
  by (simp add: fit_def Let_def)

lemma fit_docs_empty_cases:
  "(w \<notin> set proto_keys \<longrightarrow>
      fit_docs c Map.empty w = (if df_count c w = 0 then None else Some (Cnt (df_count c w)))) \<and>
   (w \<in> set proto_keys \<longrightarrow>
      fit_docs c Map.empty w = None \<or> fit_docs c Map.empty w = Some Junk)"
  using fit_docs_count[of w Map.empty 0 c] fit_docs_proto[of w Map.empty c] by simp

lemma fitted_docFreqs:
  assumes "documents \<noteq> []"
    and "docFreqs (fit documents st0) w = Some (Cnt n)"
  shows "w \<notin> set proto_keys" and "n = df_count (map tokenize documents) w"
    and "1 \<le> n" and "n \<le> N (fit documents st0)"
proof -
  let ?c = "map tokenize documents"
  from assms have e: "fit_docs ?c Map.empty w = Some (Cnt n)"
    by (simp add: fit_nonempty_fields)
  show np: "w \<notin> set proto_keys"
    using e fit_docs_empty_cases[of w ?c] by auto
  with e fit_docs_empty_cases[of w ?c]
  have "(if df_count ?c w = 0 then None else Some (Cnt (df_count ?c w))) = Some (Cnt n)"
    by simp
  then have k: "df_count ?c w \<noteq> 0" "n = df_count ?c w"
    by (auto split: if_splits)
  from k show "n = df_count ?c w" by simp
  from k show "1 \<le> n" by simp
  from k df_count_le[of ?c w] assms(1) show "n \<le> N (fit documents st0)"
    by (simp add: fit_nonempty_fields)
qed

lemma fitted_idf:
  assumes "documents \<noteq> []"
  shows "idf (fit documents st0) w =
     (if w = ''__proto__'' then None
      else (case docFreqs (fit documents st0) w of None \<Rightarrow> None
            | Some (Cnt freq) \<Rightarrow> Some (Fin (idf_value (N (fit documents st0)) freq))
            | Some Junk \<Rightarrow> Some NaN))"
  using assms
  by (simp add: fit_nonempty_fields idf_table_def split: option.splits count.splits)

lemma fitted_avgdl_pos:
  assumes "documents \<noteq> []" and "idf (fit documents st0) w = Some v"
  shows "0 < avgdl (fit documents st0)"
proof -
  let ?c = "map tokenize documents"
  from assms have "fit_docs ?c Map.empty w \<noteq> None"
    by (auto simp: fit_nonempty_fields idf_table_def split: if_splits option.splits)
  then have "0 < df_count ?c w" by (intro fit_docs_dom[of Map.empty w ?c]) simp_all
  then have "0 < sum_list (map length ?c)" by (rule df_count_pos_sum)
  with assms(1) show ?thesis by (simp add: fit_nonempty_fields)
qed

lemma fitted_vocabulary_ok:
  assumes "documents \<noteq> []"
  shows "vocabulary_ok (fit documents st0)"
  unfolding vocabulary_ok_def
proof (intro allI impI)
  fix w v
  assume i: "idf (fit documents st0) w = Some v"
  have av: "0 < avgdl (fit documents st0)" by (rule fitted_avgdl_pos[OF assms i])
  from i fitted_idf[OF assms, of st0 w] have np: "w \<noteq> ''__proto__''"
    by (auto split: if_splits)
  show "v = NaN \<or> (\<exists>r. v = Fin r \<and> 0 \<le> r \<and> w \<notin> set proto_keys \<and>
                      0 < avgdl (fit documents st0))"
  proof (cases "docFreqs (fit documents st0) w")
    case None
    with i np fitted_idf[OF assms, of st0 w] show ?thesis by simp
  next
    case (Some cnt)
    show ?thesis
    proof (cases cnt)
      case (Cnt n)
      with Some have d: "docFreqs (fit documents st0) w = Some (Cnt n)" by simp
      from i np d fitted_idf[OF assms, of st0 w]
      have "v = Fin (idf_value (N (fit documents st0)) n)" by simp
      moreover have "0 \<le> idf_value (N (fit documents st0)) n"
        by (rule idf_value_nonneg[OF fitted_docFreqs(4)[OF assms d]])
      ultimately show ?thesis using fitted_docFreqs(1)[OF assms d] av by blast
    next
      case Junk
      with Some i np fitted_idf[OF assms, of st0 w] show ?thesis by simp
    qed
  qed
qed

lemma termFreqs_fold_count:
  assumes "w \<notin> set proto_keys"
    and "m w = (if k = 0 then None else Some (Cnt k))"
  shows "fold (\<lambda>word m. obj_set m word (bump (obj_get m word))) doc m w
           = (if k + count_list doc w = 0 then None else Some (Cnt (k + count_list doc w)))"
  using assms(2)
proof (induction doc arbitrary: m k)
  case Nil
  then show ?case by simp
next
  case (Cons word doc)
  have np: "w \<noteq> ''__proto__''" using assms(1) proto_in_keys by auto
  let ?m = "obj_set m word (bump (obj_get m word))"
  show ?case
  proof (cases "word = w")
    case True
    have "?m w = (if k + 1 = 0 then None else Some (Cnt (k + 1)))"
      using True np Cons.prems assms(1) by (simp add: obj_set_def obj_get_def bump_def)
    from Cons.IH[of ?m "k + 1", OF this] True show ?thesis by simp
  next
    case False
    have "?m w = (if k = 0 then None else Some (Cnt k))"
      using False Cons.prems by (simp add: obj_set_def)
    from Cons.IH[of ?m k, OF this] False show ?thesis by simp
  qed
qed

lemma termFreqs_of_count:
  "w \<notin> set proto_keys \<Longrightarrow>
     termFreqs_of doc w = (if count_list doc w = 0 then None else Some (Cnt (count_list doc w)))"
  unfolding termFreqs_of_def using termFreqs_fold_count[of w Map.empty 0 doc] by simp

lemma termFreqs_of_counts_ok: "counts_ok (termFreqs_of doc)"
  unfolding counts_ok_def by (simp add: termFreqs_of_count)

lemma fitted_docLen_at:
  assumes "documents \<noteq> []" and "idx < length documents"
  shows "docLen_at (fit documents st0) idx
           = Fin (real (length (corpus (fit documents st0) ! idx)))"
  using assms by (simp add: docLen_at_def fit_nonempty_fields)

lemma fitted_score_doc:
  assumes d: "documents \<noteq> []" and i: "idx < length documents"
    and p: "0 < k1 st0" "0 \<le> b st0" "b st0 < 1"
  shows "score_doc (fit documents st0) q idx =
     (if \<exists>t \<in> set q. nan_token (fit documents st0) t then NaN
      else Fin (doc_sum (fit documents st0) q idx))"
proof -
  let ?st = "fit documents st0"
  have p': "0 < k1 ?st" "0 \<le> b ?st" "b ?st \<le> 1"
    "0 < avgdl ?st \<longrightarrow> b ?st < 1 \<or> 0 < real (length (corpus ?st ! idx))"
    "0 \<le> real (length (corpus ?st ! idx))"
    using p d by (simp_all add: fit_nonempty_fields)
  show ?thesis
    unfolding score_doc_def doc_sum_def fitted_docLen_at[OF d i]
    by (rule score_tokens_cases[OF fitted_vocabulary_ok[OF d] termFreqs_of_counts_ok p'])
qed

section \<open>The result of score\<close>

lemma consistent_on_all_nan:
  assumes "\<forall>p \<in> S. snd p = NaN"
  shows "consistent_on S (\<lambda>x y. jsub (snd y) (snd x))"
  unfolding consistent_on_def using assms by (simp add: jsub_def)

lemma consistent_on_all_fin:
  assumes "\<forall>p \<in> S. \<exists>r. snd p = Fin r"
  shows "consistent_on S (\<lambda>x y. jsub (snd y) (snd x))"
  unfolding consistent_on_def
proof (intro conjI ballI impI)
  fix u v w
  assume m: "u \<in> S" "v \<in> S" "w \<in> S"
    and a: "\<not> js_positive (jsub (snd v) (snd u))" "\<not> js_positive (jsub (snd w) (snd v))"
  from m assms obtain ru rv rw where r: "snd u = Fin ru" "snd v = Fin rv" "snd w = Fin rw"
    by blast
  from a show "\<not> js_positive (jsub (snd w) (snd u))"
    by (simp add: r jsub_def)
next
  fix u v
  assume m: "u \<in> S" "v \<in> S" and a: "js_positive (jsub (snd v) (snd u))"
  from m assms obtain ru rv where r: "snd u = Fin ru" "snd v = Fin rv" by blast
  from a show "\<not> js_positive (jsub (snd u) (snd v))"
    by (simp add: r jsub_def)
qed

lemma score_mset:
  "mset (score query st) =
     mset (map (\<lambda>idx. (idx, score_doc st (tokenize query) idx)) [0..<length (corpus st)])"
  by (simp add: score_def Let_def mset_array_sort)

lemma fitted_scores_consistent:
  assumes d: "documents \<noteq> []" and p: "0 < k1 st0" "0 \<le> b st0" "b st0 < 1"
  shows "consistent_on
     (set (map (\<lambda>idx. (idx, score_doc (fit documents st0) q idx)) [0..<length documents]))
     (\<lambda>x y. jsub (snd y) (snd x))"
proof (cases "\<exists>t \<in> set q. nan_token (fit documents st0) t")
  case True
  show ?thesis
    by (rule consistent_on_all_nan) (auto simp: fitted_score_doc[OF d _ p] True)
next
  case False
  show ?thesis
    by (rule consistent_on_all_fin) (auto simp: fitted_score_doc[OF d _ p] False)
qed

lemma fitted_scores_uniform:
  assumes d: "documents \<noteq> []" and p: "0 < k1 st0" "0 \<le> b st0" "b st0 < 1"
  shows "(\<forall>p \<in> set (map (\<lambda>idx. (idx, score_doc (fit documents st0) q idx))
                        [0..<length documents]). snd p = NaN) \<or>
         (\<forall>p \<in> set (map (\<lambda>idx. (idx, score_doc (fit documents st0) q idx))
                        [0..<length documents]). \<exists>r. snd p = Fin r)"
proof (cases "\<exists>t \<in> set q. nan_token (fit documents st0) t")
  case True
  then have "\<forall>p \<in> set (map (\<lambda>idx. (idx, score_doc (fit documents st0) q idx))
                        [0..<length documents]). snd p = NaN"
    by (auto simp: fitted_score_doc[OF d _ p])
  then show ?thesis by blast
next
  case False
  then have "\<forall>p \<in> set (map (\<lambda>idx. (idx, score_doc (fit documents st0) q idx))
                        [0..<length documents]). \<exists>r. snd p = Fin r"
    by (auto simp: fitted_score_doc[OF d _ p])
  then show ?thesis by blast
qed

lemma score_set:
  "set (score query (fit documents st0)) =
     set (map (\<lambda>idx. (idx, score_doc (fit documents st0) (tokenize query) idx))
            [0..<length documents])"
  by (simp add: score_def Let_def set_array_sort fit_corpus)

lemma fitted_score_sorted:
  assumes p: "0 < k1 st0" "0 \<le> b st0" "b st0 < 1"
  shows "sorted_wrt (\<lambda>x y. \<not> js_greater (snd y) (snd x)) (score query (fit documents st0))"
proof (cases "documents = []")
  case True
  then show ?thesis by (simp add: score_after_empty_fit)
next
  case False
  have c: "length (corpus (fit documents st0)) = length documents" by (simp add: fit_corpus)
  from sorted_array_sort[OF fitted_scores_consistent[OF False p, of "tokenize query"]]
  show ?thesis by (simp add: score_def Let_def c js_greater_def)
qed















text \<open>
  An instance of the case in which every score is NaN: the \<open>idf\<close> object inherits a value
  under the query token "constructor", which passes the test of line 60.
\<close>

lemma score_inherited_token:
  "score ''constructor'' (fit [''fitness app''] BM25_default) = [(0, NaN)]"
proof -
  have t: "tokenize ''constructor'' = [''constructor'']" by code_simp
  have i: "idf (fit [''fitness app''] BM25_default) ''constructor'' = None"
    by (simp add: fit_def Let_def tokenize_fitness_app idf_table_def obj_set_def obj_get_def
        bump_def proto_keys_def)
  have c: "corpus (fit [''fitness app''] BM25_default) = [[''fitness'', ''app'']]"
    by (simp add: fit_corpus tokenize_fitness_app)
  show ?thesis
    by (simp add: score_def Let_def t c score_doc_def score_tokens_def score_token_def
        idf_lookup_def obj_get_def i proto_keys_def jadd_NaN_right array_sort_def)
qed

section \<open>The IDF table\<close>

text \<open>
  In an index fitted on \<open>N \<ge> 1\<close> documents, a word whose \<open>docFreqs\<close> entry is a number
  \<open>df\<close> occurs in \<open>df\<close> documents, \<open>1 \<le> df \<le> N\<close>, its IDF entry is
  \<open>ln ((N - df + 0.5) / (df + 0.5) + 1)\<close>, and this value is not negative.
\<close>

lemma fitted_idf_of_counted_word:
  assumes "documents \<noteq> []" and "docFreqs (fit documents st0) w = Some (Cnt df)"
  shows "1 \<le> df \<and> df \<le> N (fit documents st0) \<and>
     idf (fit documents st0) w = Some (Fin (idf_value (N (fit documents st0)) df)) \<and>
     idf_value (N (fit documents st0)) df =
       ln ((real (N (fit documents st0)) - real df + 1 / 2) / (real df + 1 / 2) + 1) \<and>
     0 \<le> idf_value (N (fit documents st0)) df"
proof -
  note f = fitted_docFreqs[OF assms]
  have np: "w \<noteq> ''__proto__''" using f(1) proto_in_keys by auto
  have "idf (fit documents st0) w = Some (Fin (idf_value (N (fit documents st0)) df))"
    using fitted_idf[OF assms(1), of st0 w] np assms(2) by simp
  moreover have "0 \<le> idf_value (N (fit documents st0)) df"
    by (rule idf_value_nonneg[OF f(4)])
  ultimately show ?thesis using f(3) f(4) by (simp add: idf_value_def)
qed

lemma tokenize_constructor_foo: "tokenize ''constructor foo'' = [''constructor'', ''foo'']"
  by code_simp

text \<open>
  Claim C7 fails on the code. The word "constructor" occurs in the one document of the
  corpus, so it is a vocabulary token with document frequency 1 and \<open>N = 1\<close>. But \<open>docFreqs\<close>
  is a plain object that inherits a function under this key: line 39 reads the function,
  \<open>(f || 0) + 1\<close> is a string, and line 46 computes from the string the IDF NaN, which is
  not a non-negative number. The word "foo" of the same document has the count 1 and the
  IDF \<open>ln ((1 - 1 + 0.5) / (1 + 0.5) + 1)\<close>.
\<close>

theorem fit_inherited_word_idf_nan:
  "N (fit [''constructor foo''] BM25_default) = 1 \<and>
   corpus (fit [''constructor foo''] BM25_default) = [[''constructor'', ''foo'']] \<and>
   df_count (corpus (fit [''constructor foo''] BM25_default)) ''constructor'' = 1 \<and>
   docFreqs (fit [''constructor foo''] BM25_default) ''constructor'' = Some Junk \<and>
   idf (fit [''constructor foo''] BM25_default) ''constructor'' = Some NaN \<and>
   docFreqs (fit [''constructor foo''] BM25_default) ''foo'' = Some (Cnt 1) \<and>
   idf (fit [''constructor foo''] BM25_default) ''foo'' = Some (Fin (idf_value 1 1))"
proof -
  have n: "N (fit [''constructor foo''] BM25_default) = 1"
    by (simp add: fit_def Let_def)
  have c: "corpus (fit [''constructor foo''] BM25_default) = [[''constructor'', ''foo'']]"
    by (simp add: fit_corpus tokenize_constructor_foo)
  have d: "df_count (corpus (fit [''constructor foo''] BM25_default)) ''constructor'' = 1"
    by (simp add: c df_count_def)
  have f1: "docFreqs (fit [''constructor foo''] BM25_default) ''constructor'' = Some Junk"
    by (simp add: fit_def Let_def tokenize_constructor_foo obj_set_def obj_get_def bump_def
        proto_keys_def)
  have i1: "idf (fit [''constructor foo''] BM25_default) ''constructor'' = Some NaN"
    by (simp add: fit_def Let_def tokenize_constructor_foo obj_set_def obj_get_def bump_def
        proto_keys_def idf_table_def)
  have f2: "docFreqs (fit [''constructor foo''] BM25_default) ''foo'' = Some (Cnt 1)"
    by (simp add: fit_def Let_def tokenize_constructor_foo obj_set_def obj_get_def bump_def
        proto_keys_def)
  have i2: "idf (fit [''constructor foo''] BM25_default) ''foo'' = Some (Fin (idf_value 1 1))"
    by (simp add: fit_def Let_def tokenize_constructor_foo obj_set_def obj_get_def bump_def
        proto_keys_def idf_table_def)
  from n c d f1 i1 f2 i2 show ?thesis by blast
qed

section \<open>The score formula in exact arithmetic\<close>

text \<open>
  The value that one round of the loop adds, as a function of the term frequency and of
  \<open>b\<close>, in exact arithmetic. The program computes it in 64-bit floating point, where a
  result can move by one unit in the last place against these inequalities; they are no
  statements about the computed scores.
\<close>

lemma bm25_term_mono_tf:
  assumes "0 \<le> v" "0 < kk" "0 < 1 - bb + bb * dl / av" "0 \<le> tf1" "tf1 \<le> tf2"
  shows "bm25_term kk bb av v tf1 dl \<le> bm25_term kk bb av v tf2 dl"
proof -
  define K where "K = kk * (1 - bb + bb * dl / av)"
  have K: "0 < K" unfolding K_def using assms(2,3) by simp
  have p1: "0 < tf1 + K" and p2: "0 < tf2 + K" using K assms(4,5) by simp_all
  have "tf1 * (tf2 + K) \<le> tf2 * (tf1 + K)"
  proof -
    have "tf1 * K \<le> tf2 * K" using assms(5) K by simp
    then show ?thesis by (simp add: algebra_simps)
  qed
  then have q: "tf1 / (tf1 + K) \<le> tf2 / (tf2 + K)"
    using p1 p2 by (simp add: frac_le_eq[symmetric] pos_le_divide_eq pos_divide_le_eq field_simps)
  have c: "0 \<le> v * (kk + 1)" using assms(1,2) by simp
  have "v * (kk + 1) * (tf1 / (tf1 + K)) \<le> v * (kk + 1) * (tf2 / (tf2 + K))"
    by (rule mult_left_mono[OF q c])
  then show ?thesis by (simp add: bm25_term_def K_def mult_ac)
qed

lemma bm25_term_antimono_b:
  assumes "0 \<le> v" "0 < kk" "0 \<le> b1" "b1 \<le> b2" "0 < av" "av \<le> dl" "0 \<le> tf"
  shows "bm25_term kk b2 av v tf dl \<le> bm25_term kk b1 av v tf dl"
proof -
  have r: "1 \<le> dl / av" using assms(5,6) by simp
  have "b1 * (dl / av - 1) \<le> b2 * (dl / av - 1)"
    using assms(4) r by (intro mult_right_mono) simp_all
  then have n: "1 - b1 + b1 * dl / av \<le> 1 - b2 + b2 * dl / av"
    by (simp add: algebra_simps)
  have "0 \<le> b1 * (dl / av - 1)" using assms(3) r by simp
  then have n1: "0 < 1 - b1 + b1 * dl / av" by (simp add: algebra_simps)
  have d1: "0 < tf + kk * (1 - b1 + b1 * dl / av)"
    using n1 assms(2,7) by (simp add: add_nonneg_pos)
  have d12: "tf + kk * (1 - b1 + b1 * dl / av) \<le> tf + kk * (1 - b2 + b2 * dl / av)"
    using n assms(2) by simp
  have a: "0 \<le> v * (tf * (kk + 1))" using assms(1,2,7) by simp
  show ?thesis
    unfolding bm25_term_def by (rule divide_left_mono[OF d12 a]) (use d1 d12 in simp)
qed

lemma bm25_term_average_length:
  "av \<noteq> 0 \<Longrightarrow> bm25_term kk bb av v tf av = v * (tf * (kk + 1)) / (tf + kk)"
  by (simp add: bm25_term_def)

section \<open>Properties of the collection search\<close>

lemma filter_take_sorted:
  assumes "sorted_wrt R xs"
    and "\<And>x y. x \<in> set xs \<Longrightarrow> y \<in> set xs \<Longrightarrow> R x y \<Longrightarrow> P y \<Longrightarrow> P x"
  shows "filter P (take n xs) = take n (filter P xs)"
  using assms
proof (induction xs arbitrary: n)
  case Nil
  then show ?case by simp
next
  case (Cons x xs)
  have srt: "sorted_wrt R xs" and hd: "\<forall>y \<in> set xs. R x y" using Cons.prems(1) by simp_all
  have cl: "\<And>u v. u \<in> set xs \<Longrightarrow> v \<in> set xs \<Longrightarrow> R u v \<Longrightarrow> P v \<Longrightarrow> P u"
  proof -
    fix u v
    assume "u \<in> set xs" "v \<in> set xs" "R u v" "P v"
    then show "P u" using Cons.prems(2)[of u v] by simp
  qed
  show ?case
  proof (cases n)
    case 0
    then show ?thesis by simp
  next
    case (Suc m)
    show ?thesis
    proof (cases "P x")
      case True
      with Suc Cons.IH[of m, OF srt cl] show ?thesis by simp
    next
      case False
      have "\<forall>y \<in> set xs. \<not> P y"
      proof
        fix y assume y: "y \<in> set xs"
        with hd have "R x y" by simp
        with False Cons.prems(2)[of x y] y show "\<not> P y" by auto
      qed
      then have "filter P xs = []" "filter P (take m xs) = []"
        by (auto simp: filter_empty_conv dest: in_set_takeD)
      with False Suc show ?thesis by simp
    qed
  qed
qed

lemma positive_downward:
  assumes "consistent_on S (\<lambda>x y. jsub (snd y) (snd x))"
    and "(\<forall>p \<in> S. snd p = NaN) \<or> (\<forall>p \<in> S. \<exists>r. snd p = Fin r)"
    and "x \<in> S" "y \<in> S" "\<not> js_greater (snd y) (snd x)" "js_positive (snd y)"
  shows "js_positive (snd x)"
proof -
  from assms(2,4,6) have f: "\<forall>p \<in> S. \<exists>r. snd p = Fin r" by auto
  with assms(3,4) obtain rx ry where r: "snd x = Fin rx" "snd y = Fin ry" by blast
  with assms(5,6) show ?thesis by (simp add: js_greater_def jsub_def)
qed

lemma fitted_positive_prefix:
  assumes p: "0 < k1 st0" "0 \<le> b st0" "b st0 < 1"
  shows "filter (\<lambda>(idx, s). js_positive s) (take n (score query (fit documents st0)))
       = take n (filter (\<lambda>(idx, s). js_positive s) (score query (fit documents st0)))"
proof (cases "documents = []")
  case True
  then show ?thesis by (simp add: score_after_empty_fit)
next
  case False
  let ?S = "set (score query (fit documents st0))"
  have con: "consistent_on ?S (\<lambda>x y. jsub (snd y) (snd x))"
    unfolding score_set by (rule fitted_scores_consistent[OF False p])
  have uni: "(\<forall>p \<in> ?S. snd p = NaN) \<or> (\<forall>p \<in> ?S. \<exists>r. snd p = Fin r)"
    unfolding score_set by (rule fitted_scores_uniform[OF False p])
  show ?thesis
  proof (rule filter_take_sorted[OF fitted_score_sorted[OF p]])
    fix x y :: "nat \<times> jsnum"
    assume "x \<in> ?S" "y \<in> ?S" "\<not> js_greater (snd y) (snd x)"
      "case y of (idx, s) \<Rightarrow> js_positive s"
    then have "js_positive (snd x)"
      using positive_downward[OF con uni, of x y] by (simp add: case_prod_beta)
    then show "case x of (idx, s) \<Rightarrow> js_positive s" by (simp add: case_prod_beta)
  qed
qed

lemma positive_count_sorted:
  "length (filter (\<lambda>(idx, s). js_positive s) (score query st))
     = length (filter (\<lambda>idx. js_positive (score_doc st (tokenize query) idx))
                 [0..<length (corpus st)])"
proof -
  let ?P = "\<lambda>(idx, s). js_positive s"
  let ?xs = "map (\<lambda>idx. (idx, score_doc st (tokenize query) idx)) [0..<length (corpus st)]"
  have "length (filter ?P (score query st)) = size (filter_mset ?P (mset (score query st)))"
    by (simp only: mset_filter[symmetric] size_mset)
  also have "\<dots> = size (filter_mset ?P (mset ?xs))" by (simp only: score_mset)
  also have "\<dots> = length (filter ?P ?xs)" by (simp only: mset_filter[symmetric] size_mset)
  also have "\<dots> = length (filter (\<lambda>idx. js_positive (score_doc st (tokenize query) idx))
                 [0..<length (corpus st)])"
    by (simp add: filter_map comp_def)
  finally show ?thesis .
qed

lemma project_all_in_range:
  "\<forall>p \<in> set hits. fst p < length data \<Longrightarrow>
     project_all cols data hits = Inr (map (\<lambda>(idx, s). project cols (data ! idx)) hits)"
proof (induction hits)
  case Nil
  then show ?case by simp
next
  case (Cons h hits)
  obtain idx s where h: "h = (idx, s)" by (cases h)
  with Cons show ?case by simp
qed

lemma search_hits_facts:
  assumes "0 \<le> maxResults"
  shows "length (search_hits cfg data query maxResults) \<le> nat maxResults"
    and "length (search_hits cfg data query maxResults) =
           min (nat maxResults)
             (length (filter (\<lambda>idx. js_positive
                        (score_doc (fit (documents_of cfg data) BM25_default)
                           (tokenize query) idx)) [0..<length data]))"
    and "\<forall>p \<in> set (search_hits cfg data query maxResults).
           js_positive (snd p) \<and> fst p < length data \<and>
           snd p = score_doc (fit (documents_of cfg data) BM25_default) (tokenize query) (fst p)"
proof -
  let ?st = "fit (documents_of cfg data) BM25_default"
  let ?P = "\<lambda>(idx, s). js_positive s"
  have p: "0 < k1 BM25_default" "0 \<le> b BM25_default" "b BM25_default < 1"
    by (simp_all add: BM25_default_def BM25_new_def)
  have len: "length (documents_of cfg data) = length data" by (simp add: documents_of_def)
  have h: "search_hits cfg data query maxResults
      = filter ?P (take (nat maxResults) (score query ?st))"
    using assms by (simp add: search_hits_def Let_def array_slice0_def)
  have "length (filter ?P (take (nat maxResults) (score query ?st)))
      \<le> length (take (nat maxResults) (score query ?st))"
    by (rule length_filter_le)
  then show "length (search_hits cfg data query maxResults) \<le> nat maxResults"
    unfolding h by simp
  have "length (search_hits cfg data query maxResults)
      = length (take (nat maxResults) (filter ?P (score query ?st)))"
    unfolding h by (simp only: fitted_positive_prefix[OF p])
  also have "\<dots> = min (nat maxResults) (length (filter ?P (score query ?st)))"
    by (simp add: min.commute)
  finally show "length (search_hits cfg data query maxResults) =
           min (nat maxResults)
             (length (filter (\<lambda>idx. js_positive (score_doc ?st (tokenize query) idx))
                        [0..<length data]))"
    by (simp add: positive_count_sorted fit_corpus len)
  show "\<forall>p \<in> set (search_hits cfg data query maxResults).
           js_positive (snd p) \<and> fst p < length data \<and>
           snd p = score_doc ?st (tokenize query) (fst p)"
  proof
    fix q assume "q \<in> set (search_hits cfg data query maxResults)"
    then have a: "?P q" and b: "q \<in> set (score query ?st)"
      unfolding h by (auto dest: in_set_takeD)
    from b show "js_positive (snd q) \<and> fst q < length data \<and>
           snd q = score_doc ?st (tokenize query) (fst q)"
      using a unfolding score_set by (auto simp: len)
  qed
qed

text \<open>
  For one of the five collections whose file loads, and a count \<open>maxResults \<ge> 0\<close>,
  \<open>searchDesignCSV\<close> returns the projections of the ranked pairs that survive the slice and the
  filter; there are at most \<open>maxResults\<close> of them, namely the minimum of \<open>maxResults\<close> and the
  number of documents with a positive score, and each has a positive score. A name that is
  neither a collection nor a property inherited from \<open>Object.prototype\<close> yields the empty
  sequence.
\<close>

lemma searchDesignCSV_result_bounds:
  "(DESIGN_CSV_CONFIG domain = Some cfg \<and>
    loadDesignData fs c (file_name cfg) = Inr (data, c') \<and> 0 \<le> maxResults \<longrightarrow>
      searchDesignCSV fs c domain query maxResults =
        Inr (map (\<lambda>(idx, s). project (outputCols cfg) (data ! idx))
               (search_hits cfg data query maxResults), c') \<and>
      length (search_hits cfg data query maxResults) \<le> nat maxResults \<and>
      length (search_hits cfg data query maxResults) =
        min (nat maxResults)
          (length (filter (\<lambda>idx. js_positive
                     (score_doc (fit (documents_of cfg data) BM25_default)
                        (tokenize query) idx)) [0..<length data])) \<and>
      (\<forall>p \<in> set (search_hits cfg data query maxResults).
         js_positive (snd p) \<and> fst p < length data \<and>
         snd p = score_doc (fit (documents_of cfg data) BM25_default) (tokenize query) (fst p))) \<and>
   (DESIGN_CSV_CONFIG domain = None \<and> domain \<notin> set proto_keys \<longrightarrow>
      searchDesignCSV fs c domain query maxResults = Inr ([], c))"
proof (intro conjI impI)
  assume a: "DESIGN_CSV_CONFIG domain = Some cfg \<and>
    loadDesignData fs c (file_name cfg) = Inr (data, c') \<and> 0 \<le> maxResults"
  then have m: "0 \<le> maxResults" by simp
  note f = search_hits_facts[OF m, of cfg data query]
  from f(3) have "\<forall>p \<in> set (search_hits cfg data query maxResults). fst p < length data"
    by blast
  from project_all_in_range[OF this, of "outputCols cfg"] a
  show "searchDesignCSV fs c domain query maxResults =
        Inr (map (\<lambda>(idx, s). project (outputCols cfg) (data ! idx))
               (search_hits cfg data query maxResults), c')"
    by (simp add: searchDesignCSV_def obj_get_def)
  from f(1) show "length (search_hits cfg data query maxResults) \<le> nat maxResults" .
  from f(2) show "length (search_hits cfg data query maxResults) =
        min (nat maxResults)
          (length (filter (\<lambda>idx. js_positive
                     (score_doc (fit (documents_of cfg data) BM25_default)
                        (tokenize query) idx)) [0..<length data]))" .
  from f(3) show "\<forall>p \<in> set (search_hits cfg data query maxResults).
         js_positive (snd p) \<and> fst p < length data \<and>
         snd p = score_doc (fit (documents_of cfg data) BM25_default) (tokenize query) (fst p)" .
next
  assume "DESIGN_CSV_CONFIG domain = None \<and> domain \<notin> set proto_keys"
  then show "searchDesignCSV fs c domain query maxResults = Inr ([], c)"
    by (simp add: searchDesignCSV_def obj_get_def)
qed

text \<open>
  Claim C2 fails on the code. "constructor" is not one of the five collection names, but
  \<open>DESIGN_CSV_CONFIG\<close> is a plain object that inherits a property of that name: \<open>config\<close> is
  a function, the test \<open>if (!config) return []\<close> of line 118 lets it pass, \<open>config.file\<close> is
  \<open>undefined\<close>, and \<open>loadDesignData\<close> throws a \<open>TypeError\<close> where the claim promises the empty
  sequence. An unknown name that is not inherited, "fonts", does yield the empty sequence.
\<close>

theorem searchDesignCSV_inherited_name_throws:
  "DESIGN_CSV_CONFIG ''constructor'' = None \<and>
   searchDesignCSV (\<lambda>f. Inr []) Map.empty ''constructor'' ''glass'' 3 = Inl TypeError \<and>
   searchDesignCSV (\<lambda>f. Inr []) Map.empty ''fonts'' ''glass'' 3 = Inr ([], Map.empty)"
  by (simp add: searchDesignCSV_def obj_get_def DESIGN_CSV_CONFIG_def proto_keys_def)

end
